theory Spec2Isabelle
  imports Complex_Main
begin

section \<open>Closest pair of points in TSMT$GeomUtils\<close>

text \<open>
  The embedding follows \<^verbatim>\<open>closestPoints\<close> and \<^verbatim>\<open>__closestPoint\<close> of
  \<^verbatim>\<open>src/GeomUtils.ts\<close>.

  \<^item> A JavaScript number is a double. A finite double is the real number it denotes,
    \<^verbatim>\<open>Infinity\<close> is the real \<open>2 ^ 1024\<close> (the first value above
    \<^verbatim>\<open>Number.MAX_VALUE\<close> that rounding to nearest cannot keep finite) and
    \<^verbatim>\<open>-Infinity\<close> its negation. Every arithmetic operation of the source is the exact
    operation followed by \<open>rnd\<close>, rounding to the nearest double with ties to even and
    overflow to \<^verbatim>\<open>Infinity\<close>. A coordinate is a real number, the finite doubles
    among them; so no operation of the source yields \<^verbatim>\<open>NaN\<close>. \<^verbatim>\<open>Math.sqrt\<close> is
    correctly rounded, as IEEE 754 has it.
  \<^item> An index is an integer held in a double. \<^verbatim>\<open>++i\<close>, \<^verbatim>\<open>j++\<close> and
    \<^verbatim>\<open>m++\<close> run below the length of an array, which is below \<open>2 ^ 32\<close>, and
    are exact; the midpoint and \<^verbatim>\<open>mid+1\<close> are rounded.
  \<^item> A point object \<^verbatim>\<open>{x: .., y: ..}\<close> is a value \<open>Point x y\<close>; the code never
    writes to a point after building it.
  \<^item> Arrays live in a store, a list of arrays indexed by address. \<^verbatim>\<open>new Array\<close>
    and \<^verbatim>\<open>slice\<close> allocate a new address, \<^verbatim>\<open>sort\<close> overwrites the array at its
    address. The arrays \<^verbatim>\<open>points\<close> and \<^verbatim>\<open>tmp\<close> never leave their function
    and are only appended to: they are local lists.
  \<^item> \<^verbatim>\<open>Array.prototype.sort\<close> is stable (ECMAScript 2019), and the comparator of the
    source orders by one property ascending: it is \<open>sort_key\<close>.
  \<^item> Reading a property of \<^verbatim>\<open>undefined\<close> throws: the model returns
    \<open>Inl TypeError\<close>. A recursion that does not end is the value \<open>None\<close>.
  \<^item> The instance fields \<^verbatim>\<open>_best1\<close>, \<^verbatim>\<open>_best2\<close>, \<^verbatim>\<open>_bestDist\<close> are fields of
    the state; \<open>None\<close> is \<^verbatim>\<open>null\<close>. The field \<open>examined\<close> is a ghost: it logs,
    newest first, every distance the code computes together with the value
    \<^verbatim>\<open>_bestDist\<close> has once that distance has been dealt with.
\<close>

subsection \<open>Doubles\<close>

definition MAX_VALUE :: real where
  "MAX_VALUE = 2 ^ 1024 - 2 ^ 971"

definition Infinity :: real where
  "Infinity = 2 ^ 1024"

text \<open>The integer nearest to \<open>q\<close>, the even one of two that are equally near.\<close>

definition roundHalfEven :: "real \<Rightarrow> int" where
  "roundHalfEven q =
     (let f = \<lfloor>q\<rfloor> in
      if q - of_int f < 1 / 2 then f
      else if 1 / 2 < q - of_int f then f + 1
      else if even f then f else f + 1)"

text \<open>The binary exponent of the doubles around \<open>x\<close>; below \<open>2 ^ -1022\<close> they are subnormal.\<close>

definition exponent :: "real \<Rightarrow> int" where
  "exponent x = max \<lfloor>log 2 \<bar>x\<bar>\<rfloor> (- 1022)"

text \<open>The double nearest to the real \<open>x\<close>: 53 bits at the exponent of \<open>x\<close>.\<close>

definition rnd :: "real \<Rightarrow> real" where
  "rnd x =
     (if x = 0 then 0
      else
        let u = 2 powr (of_int (exponent x) - 52);
            r = of_int (roundHalfEven (x / u)) * u
        in if MAX_VALUE < r then Infinity
           else if r < - MAX_VALUE then - Infinity
           else r)"

text \<open>\<^verbatim>\<open>Math.sqrt\<close>\<close>

definition jsSqrt :: "real \<Rightarrow> real" where
  "jsSqrt x = (if Infinity \<le> x then Infinity else rnd (sqrt x))"

subsection \<open>Points, arrays and the state\<close>

datatype point = Point (px: real) (py: real)

datatype arr = Nums "real list" | Pts "point list"

type_synonym addr = nat

datatype error = TypeError

record state =
  heap :: "arr list"
  best1 :: "point option"
  best2 :: "point option"
  bestDist :: real
  examined :: "(real \<times> real) list"

text \<open>
  The array of numbers at an address. A JavaScript array has fewer than \<open>2 ^ 32\<close>
  elements: a longer list is no array.
\<close>

definition nums_at :: "state \<Rightarrow> addr \<Rightarrow> real list option" where
  "nums_at st a =
     (if a < length (heap st)
      then (case heap st ! a of
              Nums xs \<Rightarrow> if length xs < 2 ^ 32 then Some xs else None
            | Pts ps \<Rightarrow> None)
      else None)"

definition pts_at :: "state \<Rightarrow> addr \<Rightarrow> point list option" where
  "pts_at st a =
     (if a < length (heap st)
      then (case heap st ! a of Nums xs \<Rightarrow> None | Pts ps \<Rightarrow> Some ps)
      else None)"

definition alloc :: "arr \<Rightarrow> state \<Rightarrow> addr \<times> state" where
  "alloc v st = (length (heap st), st\<lparr>heap := heap st @ [v]\<rparr>)"

text \<open>\<^verbatim>\<open>a[i]\<close> for a JavaScript number \<open>i\<close> that holds an integer: \<open>None\<close> is \<^verbatim>\<open>undefined\<close>.\<close>

definition nth_opt :: "'a list \<Rightarrow> int \<Rightarrow> 'a option" where
  "nth_opt xs i = (if 0 \<le> i \<and> i < int (length xs) then Some (xs ! nat i) else None)"

text \<open>\<^verbatim>\<open>a.sort(...)\<close> with the comparator on the property \<open>prop\<close>, in place.\<close>

definition sortOn :: "(point \<Rightarrow> real) \<Rightarrow> addr \<Rightarrow> state \<Rightarrow> error + state" where
  "sortOn prop a st =
     (case pts_at st a of
        None \<Rightarrow> Inl TypeError
      | Some ps \<Rightarrow> Inr (st\<lparr>heap := (heap st)[a := Pts (sort_key prop ps)]\<rparr>))"

text \<open>\<^verbatim>\<open>Math.sqrt(dx*dx + dy*dy)\<close> with \<^verbatim>\<open>dx = b.x - a.x\<close>, \<^verbatim>\<open>dy = b.y - a.y\<close>.\<close>

definition euclidean :: "point \<Rightarrow> point \<Rightarrow> real" where
  "euclidean a b =
     (let dx = rnd (px b - px a); dy = rnd (py b - py a)
      in jsSqrt (rnd (rnd (dx * dx) + rnd (dy * dy))))"

text \<open>\<^verbatim>\<open>Math.floor( from + (to - from)/2 )\<close>\<close>

definition mid_index :: "int \<Rightarrow> int \<Rightarrow> int" where
  "mid_index from to =
     \<lfloor>rnd (real_of_int from + rnd (rnd (real_of_int to - real_of_int from) / 2))\<rfloor>"

text \<open>\<^verbatim>\<open>mid+1\<close>\<close>

definition plus1 :: "int \<Rightarrow> int" where
  "plus1 mid = \<lfloor>rnd (real_of_int mid + 1)\<rfloor>"

text \<open>The ghost write: \<open>distance\<close> has been computed and dealt with.\<close>

definition logged :: "real \<Rightarrow> state \<Rightarrow> state" where
  "logged distance st = st\<lparr>examined := (distance, bestDist st) # examined st\<rparr>"

text \<open>The loop \<^verbatim>\<open>for (i = from; i <= to; ++i)\<close> that fills \<^verbatim>\<open>tmp\<close>.\<close>

function strip :: "point list \<Rightarrow> point option \<Rightarrow> real \<Rightarrow> int \<Rightarrow> int \<Rightarrow> point list
    \<Rightarrow> error + point list" where
  "strip pointsByY median d i to tmp =
     (if i \<le> to then
        (case nth_opt pointsByY i of
           None \<Rightarrow> Inl TypeError
         | Some q \<Rightarrow>
             (case median of
                None \<Rightarrow> Inl TypeError
              | Some md \<Rightarrow>
                  strip pointsByY median d (i + 1) to
                    (if \<bar>rnd (px q - px md)\<bar> < d then tmp @ [q] else tmp)))
      else Inr tmp)"
  by pat_completeness auto
termination
  by (relation "measure (\<lambda>(pointsByY, median, d, i, to, tmp). nat (to + 1 - i))") auto

declare strip.simps [simp del]

text \<open>The body of the \<^verbatim>\<open>while\<close> loop, for the pair \<open>tmp[i]\<close>, \<open>tmp[j]\<close>.\<close>

definition examine :: "point list \<Rightarrow> nat \<Rightarrow> nat \<Rightarrow> real \<Rightarrow> state \<Rightarrow> real \<times> state" where
  "examine tmp i j d st =
     (let distance = euclidean (tmp ! i) (tmp ! j) in
      if distance < d then
        (if distance < bestDist st
         then (distance, logged distance
                 (st\<lparr>best1 := Some (tmp ! i), best2 := Some (tmp ! j), bestDist := distance\<rparr>))
         else (distance, logged distance st))
      else (d, logged distance st))"

text \<open>\<^verbatim>\<open>while ((j < m) && (tmp[j]['y'] - tmp[i]['y'] < d))\<close>, where \<open>m = length tmp\<close>.\<close>

function inner :: "point list \<Rightarrow> nat \<Rightarrow> nat \<Rightarrow> real \<Rightarrow> state \<Rightarrow> real \<times> state" where
  "inner tmp i j d st =
     (if j < length tmp \<and> rnd (py (tmp ! j) - py (tmp ! i)) < d
      then (case examine tmp i j d st of (d', st') \<Rightarrow> inner tmp i (j + 1) d' st')
      else (d, st))"
  by pat_completeness auto
termination
  by (relation "measure (\<lambda>(tmp, i, j, d, st). length tmp - j)") auto

declare inner.simps [simp del]

text \<open>\<^verbatim>\<open>for (i = 0; i < m; ++i)\<close>\<close>

function outer :: "point list \<Rightarrow> nat \<Rightarrow> real \<Rightarrow> state \<Rightarrow> real \<times> state" where
  "outer tmp i d st =
     (if i < length tmp
      then (case inner tmp i (i + 1) d st of (d', st') \<Rightarrow> outer tmp (i + 1) d' st')
      else (d, st))"
  by pat_completeness auto
termination
  by (relation "measure (\<lambda>(tmp, i, d, st). length tmp - i)") auto

declare outer.simps [simp del]

text \<open>
  \<^verbatim>\<open>__closestPoint\<close>; \<open>pointsByX\<close> and \<open>pointsByY\<close> are the addresses of the arrays.
  \<open>None\<close> is a recursion that does not end.
\<close>

partial_function (option) closestPoint ::
    "addr \<Rightarrow> addr \<Rightarrow> int \<Rightarrow> int \<Rightarrow> state \<Rightarrow> (error + (real \<times> state)) option" where
  "closestPoint pointsByX pointsByY from to st =
     (if to \<le> from then Some (Inr (MAX_VALUE, st))
      else
        (case pts_at st pointsByX of
           None \<Rightarrow> Some (Inl TypeError)
         | Some pX \<Rightarrow>
        Option.bind (closestPoint pointsByX pointsByY from (mid_index from to) st)
          (\<lambda>l. case l of
             Inl e \<Rightarrow> Some (Inl e)
           | Inr (left, st1) \<Rightarrow>
        Option.bind (closestPoint pointsByX pointsByY (plus1 (mid_index from to)) to st1)
          (\<lambda>r. case r of
             Inl e \<Rightarrow> Some (Inl e)
           | Inr (right, st2) \<Rightarrow>
        (case sortOn py pointsByY st2 of
           Inl e \<Rightarrow> Some (Inl e)
         | Inr st3 \<Rightarrow>
        (case pts_at st3 pointsByY of
           None \<Rightarrow> Some (Inl TypeError)
         | Some pY \<Rightarrow>
        (case strip pY (nth_opt pX (mid_index from to)) (min left right) from to [] of
           Inl e \<Rightarrow> Some (Inl e)
         | Inr tmp \<Rightarrow> Some (Inr (outer tmp 0 (min left right) st3)))))))))"

text \<open>
  \<^verbatim>\<open>closestPoints\<close>; an argument is \<open>None\<close> for \<^verbatim>\<open>null\<close> or \<^verbatim>\<open>undefined\<close> and
  the address of an array of numbers otherwise (an address that holds no such array is
  outside the TypeScript signature and gives \<open>Inl TypeError\<close>). The block
  \<^verbatim>\<open>if (n == 2)\<close> fills the local array \<^verbatim>\<open>points\<close>, which the source never reads
  again and does not return.
\<close>

definition closestPoints :: "addr option \<Rightarrow> addr option \<Rightarrow> state
    \<Rightarrow> (error + (point option list \<times> state)) option" where
  "closestPoints xcoord ycoord st =
     (case xcoord of None \<Rightarrow> Some (Inr ([], st)) | Some ax \<Rightarrow>
     (case ycoord of None \<Rightarrow> Some (Inr ([], st)) | Some ay \<Rightarrow>
     (case nums_at st ax of None \<Rightarrow> Some (Inl TypeError) | Some xs \<Rightarrow>
     (case nums_at st ay of None \<Rightarrow> Some (Inl TypeError) | Some ys \<Rightarrow>
        if length xs = 0 \<or> length ys = 0 then Some (Inr ([], st))
        else if length xs \<noteq> length ys then Some (Inr ([], st))
        else
          let n = length xs in
          if n = 0 then Some (Inr ([], st))
          else if n = 1
          then Some (Inr ([Some (Point (xs ! 0) (ys ! 0)), Some (Point (xs ! 0) (ys ! 0))], st))
          else
            let points = (if n = 2
                          then [Point (xs ! 0) (ys ! 0), Point (xs ! 1) (ys ! 1)]
                          else []);
                (p, st1) = alloc (Pts (map (\<lambda>i. Point (xs ! i) (ys ! i)) [0..<n])) st
            in
            (case sortOn px p st1 of Inl e \<Rightarrow> Some (Inl e) | Inr st2 \<Rightarrow>
             let st3 = st2\<lparr>best1 := None, best2 := None, bestDist := MAX_VALUE,
                            examined := []\<rparr>
             in
             (case pts_at st3 p of None \<Rightarrow> Some (Inl TypeError) | Some ps \<Rightarrow>
              if n = 3 then
                let st4 = st3\<lparr>bestDist := euclidean (ps ! 0) (ps ! 1)\<rparr>;
                    st5 = logged (euclidean (ps ! 0) (ps ! 1)) st4;
                    d = euclidean (ps ! 1) (ps ! 2);
                    st6 = logged d st5
                in
                if d < bestDist st6
                then Some (Inr ([Some (ps ! 1), Some (ps ! 2)], st6))
                else Some (Inr ([Some (ps ! 0), Some (ps ! 1)], st6))
              else
                let (pY, st4) = alloc (Pts ps) st3 in
                (case closestPoint p pY 0 (int n - 1) st4 of
                   None \<Rightarrow> None
                 | Some (Inl e) \<Rightarrow> Some (Inl e)
                 | Some (Inr (d, st5)) \<Rightarrow> Some (Inr ([best1 st5, best2 st5], st5)))))))))"


section \<open>Notions of the specification\<close>

text \<open>
  The state of an instance whose store holds the two coordinate arrays of a call, at
  addresses 0 and 1, and nothing else. The constructor leaves \<^verbatim>\<open>_bestDist\<close> at
  \<^verbatim>\<open>Number.MAX_VALUE\<close>; its empty objects in \<^verbatim>\<open>_best1\<close> and \<^verbatim>\<open>_best2\<close> are never
  read and stand as \<open>None\<close>.
\<close>

definition caller :: "real list \<Rightarrow> real list \<Rightarrow> state" where
  "caller xs ys =
     \<lparr>heap = [Nums xs, Nums ys], best1 = None, best2 = None, bestDist = MAX_VALUE,
      examined = []\<rparr>"

text \<open>
  The Euclidean distance of two points as a real number, the distances of all pairs of
  a point list, and their minimum by brute force.
\<close>

definition exactDistance :: "point \<Rightarrow> point \<Rightarrow> real" where
  "exactDistance a b = sqrt ((px b - px a)\<^sup>2 + (py b - py a)\<^sup>2)"

fun pairDistances :: "point list \<Rightarrow> real list" where
  "pairDistances [] = []"
| "pairDistances (p # ps) = map (exactDistance p) ps @ pairDistances ps"

definition bruteForce :: "point list \<Rightarrow> real" where
  "bruteForce ps = Min (set (pairDistances ps))"

text \<open>
  Two readings of a log in the order of time, each entry a distance and the value of
  \<^verbatim>\<open>_bestDist\<close> after it: the value never goes up from \<open>b\<close>; and the value is at every
  entry the least of \<open>m\<close> and the distances so far.
\<close>

fun never_increases :: "real \<Rightarrow> (real \<times> real) list \<Rightarrow> bool" where
  "never_increases b [] = True"
| "never_increases b ((distance, b') # es) = (b' \<le> b \<and> never_increases b' es)"

fun running_min :: "real \<Rightarrow> (real \<times> real) list \<Rightarrow> bool" where
  "running_min m [] = True"
| "running_min m ((distance, b') # es) = (b' = min m distance \<and> running_min (min m distance) es)"

definition log_inv :: "state \<Rightarrow> bool" where
  "log_inv st \<longleftrightarrow>
     never_increases MAX_VALUE (rev (examined st)) \<and>
     running_min MAX_VALUE (rev (examined st)) \<and>
     bestDist st = fold min (map fst (rev (examined st))) MAX_VALUE"

text \<open>
  The state in which \<open>closestPoints\<close> enters the recursion, for inputs of two or of
  more than three points: the sorted array \<open>p\<close> and its copy \<open>pY\<close> are the two
  newest arrays of the store, and the running best has been reset.
\<close>

definition sortedPoints :: "real list \<Rightarrow> real list \<Rightarrow> point list" where
  "sortedPoints xs ys = sort_key px (map (\<lambda>i. Point (xs ! i) (ys ! i)) [0..<length xs])"

definition entry :: "state \<Rightarrow> real list \<Rightarrow> real list \<Rightarrow> state" where
  "entry st xs ys =
     st\<lparr>best1 := None, best2 := None, bestDist := MAX_VALUE, examined := [],
        heap := heap st @ [Pts (sortedPoints xs ys), Pts (sortedPoints xs ys)]\<rparr>"

section \<open>Rounding to a double\<close>

text \<open>
  \<open>rnd\<close> keeps every double, that is every integer of at most 53 bits times a power
  of two in range: so the integers up to \<open>2 ^ 53\<close>, their halves and
  \<^verbatim>\<open>Number.MAX_VALUE\<close>. Its relative error is at most \<open>2 ^ -53\<close>, and the rounded
  square roots of integers up to \<open>2 ^ 40\<close> compare as the integers do. Index
  arithmetic is exact up to \<open>2 ^ 52\<close>; the midpoint of \<open>2 ^ 52 + 1\<close> and
  \<open>2 ^ 52 + 2\<close> is a tie and rounds up. With these facts the simplifier runs the
  model on numerals.
\<close>

lemma roundHalfEven_int: "roundHalfEven (of_int n) = n"
  by (simp add: roundHalfEven_def)

lemma roundHalfEven_err: "\<bar>of_int (roundHalfEven q) - q\<bar> \<le> 1 / 2"
proof -
  have "of_int \<lfloor>q\<rfloor> \<le> q" and "q < of_int \<lfloor>q\<rfloor> + 1"
    by linarith+
  then show ?thesis
    unfolding roundHalfEven_def Let_def by (simp add: abs_if) linarith
qed

lemma floor_log2_bounds:
  assumes "x \<noteq> 0"
  shows "2 powr of_int \<lfloor>log 2 \<bar>x\<bar>\<rfloor> \<le> \<bar>x\<bar>" and "\<bar>x\<bar> < 2 powr (of_int \<lfloor>log 2 \<bar>x\<bar>\<rfloor> + 1)"
proof -
  from assms have p: "0 < \<bar>x\<bar>" by simp
  have "of_int \<lfloor>log 2 \<bar>x\<bar>\<rfloor> \<le> log 2 \<bar>x\<bar>" by linarith
  then have "2 powr of_int \<lfloor>log 2 \<bar>x\<bar>\<rfloor> \<le> 2 powr log 2 \<bar>x\<bar>"
    by (simp only: powr_le_cancel_iff rel_simps)
  with p show "2 powr of_int \<lfloor>log 2 \<bar>x\<bar>\<rfloor> \<le> \<bar>x\<bar>" by simp
  have "log 2 \<bar>x\<bar> < of_int \<lfloor>log 2 \<bar>x\<bar>\<rfloor> + 1" by linarith
  then have "2 powr log 2 \<bar>x\<bar> < 2 powr (of_int \<lfloor>log 2 \<bar>x\<bar>\<rfloor> + 1)"
    by (simp only: powr_less_cancel_iff rel_simps)
  with p show "\<bar>x\<bar> < 2 powr (of_int \<lfloor>log 2 \<bar>x\<bar>\<rfloor> + 1)" by simp
qed

lemma floor_log2_unique:
  assumes "2 powr of_int e \<le> \<bar>x\<bar>" and "\<bar>x\<bar> < 2 powr (of_int e + 1)"
  shows "\<lfloor>log 2 \<bar>x\<bar>\<rfloor> = e"
proof -
  have "0 < 2 powr real_of_int e" by simp
  with assms(1) have p: "0 < \<bar>x\<bar>" by linarith
  from assms(1) p have a: "of_int e \<le> log 2 \<bar>x\<bar>"
    by (simp add: le_log_iff)
  from assms(2) p have b: "log 2 \<bar>x\<bar> < of_int e + 1"
    by (simp add: log_less_iff)
  from a b show ?thesis by linarith
qed

lemma rnd_eval:
  assumes "2 powr of_int e \<le> \<bar>x\<bar>" and "\<bar>x\<bar> < 2 powr (of_int e + 1)" and "- 1022 \<le> e"
  shows "rnd x =
     (let u = 2 powr (of_int e - 52); r = of_int (roundHalfEven (x / u)) * u
      in if MAX_VALUE < r then Infinity else if r < - MAX_VALUE then - Infinity else r)"
proof -
  have "0 < 2 powr real_of_int e" by simp
  with assms(1) have "x \<noteq> 0" by auto
  moreover from floor_log2_unique [OF assms(1,2)] assms(3) have "exponent x = e"
    by (simp add: exponent_def)
  ultimately show ?thesis
    by (simp add: rnd_def)
qed

lemma MAX_VALUE_eq: "MAX_VALUE = (2 ^ 53 - 1) * 2 ^ 971"
proof -
  have "(2::real) ^ 1024 = 2 ^ 53 * 2 ^ 971"
    by (simp only: power_add [symmetric]) simp
  then show ?thesis
    by (simp add: MAX_VALUE_def algebra_simps)
qed

lemma rnd_exact:
  assumes x: "x = of_int m * 2 powr of_int k" and m: "\<bar>m\<bar> < 2 ^ 53"
    and k: "- 1074 \<le> k" "k \<le> 971"
  shows "rnd x = x"
proof (cases "m = 0")
  case True
  with x show ?thesis by (simp add: rnd_def)
next
  case False
  with x have x0: "x \<noteq> 0" by simp
  let ?l = "\<lfloor>log 2 \<bar>x\<bar>\<rfloor>"
  let ?e = "exponent x"
  have ax: "\<bar>x\<bar> = of_int \<bar>m\<bar> * 2 powr of_int k"
    by (simp add: x abs_mult)
  have "real_of_int \<bar>m\<bar> < 2 ^ 53"
  proof -
    from m have "real_of_int \<bar>m\<bar> < real_of_int (2 ^ 53)"
      by (simp only: of_int_less_iff)
    then show ?thesis by simp
  qed
  then have "\<bar>x\<bar> < 2 ^ 53 * 2 powr of_int k"
    by (simp add: ax)
  also have "\<dots> = 2 powr (53 + of_int k)"
    by (simp add: powr_add)
  finally have "\<bar>x\<bar> < 2 powr (53 + of_int k)" .
  with floor_log2_bounds(1) [OF x0] have "(2::real) powr of_int ?l < 2 powr (53 + of_int k)"
    by linarith
  then have "real_of_int ?l < 53 + of_int k"
    by simp
  then have "?l < 53 + k"
    by linarith
  with k have e: "?e \<le> 52 + k"
    by (simp add: exponent_def)
  define j where "j = nat (k - ?e + 52)"
  with e have j: "int j = k - ?e + 52" by simp
  let ?u = "2 powr (of_int ?e - 52)"
  have "x / ?u = of_int m * 2 powr (of_int k - (of_int ?e - 52))"
    by (simp add: x powr_diff)
  also have "of_int k - (of_int ?e - 52) = real j"
    using j by linarith
  also have "of_int m * 2 powr real j = of_int (m * 2 ^ j)"
    by (simp add: powr_realpow)
  finally have q: "x / ?u = of_int (m * 2 ^ j)" .
  have "roundHalfEven (x / ?u) = m * 2 ^ j"
    by (simp only: q roundHalfEven_int)
  then have "of_int (roundHalfEven (x / ?u)) * ?u = (x / ?u) * ?u"
    by (simp only: q)
  also have "\<dots> = x"
    by simp
  finally have r: "of_int (roundHalfEven (x / ?u)) * ?u = x" .
  have "real_of_int \<bar>m\<bar> \<le> 2 ^ 53 - 1"
  proof -
    from m have "\<bar>m\<bar> \<le> 2 ^ 53 - 1" by simp
    then have "real_of_int \<bar>m\<bar> \<le> real_of_int (2 ^ 53 - 1)"
      by (simp only: of_int_le_iff)
    then show ?thesis by simp
  qed
  moreover have "2 powr of_int k \<le> (2::real) ^ 971"
  proof -
    from k have "2 powr real_of_int k \<le> 2 powr 971"
      by (simp only: powr_le_cancel_iff rel_simps of_int_le_numeral_iff)
    then show ?thesis by simp
  qed
  ultimately have "\<bar>x\<bar> \<le> (2 ^ 53 - 1) * 2 ^ 971"
    unfolding ax by (intro mult_mono) simp_all
  then have "\<bar>x\<bar> \<le> MAX_VALUE"
    by (simp only: MAX_VALUE_eq)
  then have "\<not> MAX_VALUE < x" "\<not> x < - MAX_VALUE"
    by auto
  with x0 r show ?thesis
    by (simp add: rnd_def Let_def)
qed

lemma rnd_int:
  assumes "x \<in> \<int>" and "\<bar>x\<bar> \<le> 2 ^ 53"
  shows "rnd x = x"
proof -
  from assms(1) obtain m where x: "x = of_int m"
    by (auto elim: Ints_cases)
  with assms(2) have "real_of_int \<bar>m\<bar> \<le> real_of_int (2 ^ 53)"
    by simp
  then have m: "\<bar>m\<bar> \<le> 2 ^ 53"
    by (simp only: of_int_le_iff)
  show ?thesis
  proof (cases "\<bar>m\<bar> < 2 ^ 53")
    case True
    then show ?thesis
      by (intro rnd_exact [where m = m and k = 0]) (simp_all add: x)
  next
    case False
    with m have "m = 2 ^ 53 \<or> m = - (2 ^ 53)"
      by linarith
    then have "x = of_int (if 0 < m then 2 ^ 52 else - (2 ^ 52)) * 2 powr of_int 1"
      by (auto simp: x)
    then show ?thesis
      by (rule rnd_exact) (simp_all split: if_splits)
  qed
qed

lemma rnd_half:
  assumes "\<bar>m\<bar> \<le> 2 ^ 53"
  shows "rnd (of_int m / 2) = of_int m / 2"
proof (cases "\<bar>m\<bar> < 2 ^ 53")
  case True
  have "real_of_int m / 2 = of_int m * 2 powr of_int (- 1)"
    by (simp add: powr_minus_divide)
  then show ?thesis
    using True by (rule rnd_exact) simp_all
next
  case False
  with assms have "m = 2 ^ 53 \<or> m = - (2 ^ 53)"
    by linarith
  then show ?thesis
    by (auto intro!: rnd_int)
qed

lemma rnd_MAX_VALUE: "rnd MAX_VALUE = MAX_VALUE" "rnd (- MAX_VALUE) = - MAX_VALUE"
proof -
  have "MAX_VALUE = of_int (2 ^ 53 - 1) * 2 powr of_int 971"
    by (simp add: MAX_VALUE_eq)
  then show "rnd MAX_VALUE = MAX_VALUE"
    by (rule rnd_exact) simp_all
  have "- MAX_VALUE = of_int (- (2 ^ 53 - 1)) * 2 powr of_int 971"
    by (simp add: MAX_VALUE_eq)
  then show "rnd (- MAX_VALUE) = - MAX_VALUE"
    by (rule rnd_exact) simp_all
qed

lemma abs_scale:
  assumes "0 < (u::real)"
  shows "\<bar>n * u - x\<bar> = \<bar>n - x / u\<bar> * u"
proof -
  from assms have "n * u - x = (n - x / u) * u"
    by (simp add: field_simps)
  with assms show ?thesis
    by (simp add: abs_mult)
qed

lemma rnd_rel:
  assumes "1 \<le> x" and "x \<le> 2 ^ 1000"
  shows "\<bar>rnd x - x\<bar> \<le> x / 2 ^ 53"
proof -
  from assms have x0: "x \<noteq> 0" and ax: "\<bar>x\<bar> = x" by simp_all
  let ?l = "\<lfloor>log 2 \<bar>x\<bar>\<rfloor>"
  from assms(1) have "0 \<le> log 2 \<bar>x\<bar>" by simp
  then have "0 \<le> ?l" by simp
  then have e: "exponent x = ?l" by (simp add: exponent_def)
  let ?u = "(2::real) powr (of_int ?l - 52)"
  let ?r = "of_int (roundHalfEven (x / ?u)) * ?u"
  have u: "0 < ?u" by simp
  have "\<bar>?r - x\<bar> = \<bar>of_int (roundHalfEven (x / ?u)) - x / ?u\<bar> * ?u"
    using u by (rule abs_scale)
  also have "\<dots> \<le> 1 / 2 * ?u"
    using roundHalfEven_err [of "x / ?u"] u by (intro mult_right_mono) simp_all
  also have "1 / 2 * ?u = 2 powr of_int ?l / 2 ^ 53"
    by (simp add: powr_diff)
  also have "\<dots> \<le> x / 2 ^ 53"
    using floor_log2_bounds(1) [OF x0] ax by (simp add: divide_right_mono)
  finally have err: "\<bar>?r - x\<bar> \<le> x / 2 ^ 53" .
  have "x / 2 ^ 53 \<le> x" using assms(1) by (simp add: field_simps)
  with err assms have "\<bar>?r\<bar> \<le> 2 * 2 ^ 1000"
    by linarith
  also have "\<dots> \<le> MAX_VALUE"
    by (simp add: MAX_VALUE_def)
  finally have "\<not> MAX_VALUE < ?r" "\<not> ?r < - MAX_VALUE"
    by linarith+
  with x0 e have "rnd x = ?r"
    by (simp add: rnd_def Let_def)
  with err show ?thesis by simp
qed

lemma rnd_sqrt_less:
  assumes "a \<in> \<int>" and "b \<in> \<int>" and "0 \<le> a" and "a < b" and "b \<le> 2 ^ 40"
  shows "rnd (sqrt a) < rnd (sqrt b)"
proof -
  define \<delta> :: real where "\<delta> = 1 / 2 ^ 53"
  from assms(1,2) obtain m n where mn: "a = of_int m" "b = of_int n"
    by (auto elim!: Ints_cases)
  with assms(4) have "m + 1 \<le> n" by simp
  then have "real_of_int (m + 1) \<le> real_of_int n"
    by (simp only: of_int_le_iff)
  with mn have b1: "a + 1 \<le> b" by simp
  with assms(3) have "1 \<le> b" by simp
  then have sb: "1 \<le> sqrt b" by simp
  have "sqrt b \<le> sqrt (2 ^ 40)"
    using assms(5) by (simp only: real_sqrt_le_iff)
  also have "sqrt (2 ^ 40) = (2::real) ^ 20"
    by (rule real_sqrt_unique) simp_all
  finally have "sqrt b \<le> 2 ^ 1000"
    by (rule order_trans) simp
  from rnd_rel [OF sb this] have "\<bar>rnd (sqrt b) - sqrt b\<bar> \<le> sqrt b * \<delta>"
    by (simp add: \<delta>_def)
  moreover have "sqrt b * (1 - \<delta>) = sqrt b - sqrt b * \<delta>"
    by (simp add: algebra_simps)
  ultimately have lb: "sqrt b * (1 - \<delta>) \<le> rnd (sqrt b)"
    by linarith
  show ?thesis
  proof (cases "a = 0")
    case True
    have "0 < sqrt b * (1 - \<delta>)"
      using sb by (simp add: \<delta>_def)
    with lb True show ?thesis
      by (simp add: rnd_def)
  next
    case False
    with mn assms(3) have "1 \<le> m" by simp
    then have "real_of_int 1 \<le> real_of_int m"
      by (simp only: of_int_le_iff)
    with mn have a1: "1 \<le> a" by simp
    then have sa: "1 \<le> sqrt a" by simp
    have "sqrt a \<le> sqrt b"
      using assms(4) by simp
    from this \<open>sqrt b \<le> 2 ^ 1000\<close> have "sqrt a \<le> 2 ^ 1000" by (rule order_trans)
    from rnd_rel [OF sa this] have "\<bar>rnd (sqrt a) - sqrt a\<bar> \<le> sqrt a * \<delta>"
      by (simp add: \<delta>_def)
    moreover have "sqrt a * (1 + \<delta>) = sqrt a + sqrt a * \<delta>"
      by (simp add: algebra_simps)
    ultimately have ua: "rnd (sqrt a) \<le> sqrt a * (1 + \<delta>)"
      by linarith
    have "4 * a * \<delta> \<le> 4 * 2 ^ 40 * \<delta>"
      using assms(4,5) by (simp add: \<delta>_def)
    also have "\<dots> < (1 - \<delta>)\<^sup>2"
      by (simp add: \<delta>_def power2_eq_square)
    finally have "a * (1 - \<delta>)\<^sup>2 + 4 * a * \<delta> < a * (1 - \<delta>)\<^sup>2 + (1 - \<delta>)\<^sup>2"
      by simp
    also have "a * (1 - \<delta>)\<^sup>2 + 4 * a * \<delta> = a * (1 + \<delta>)\<^sup>2"
      by (simp add: power2_eq_square algebra_simps)
    also have "a * (1 - \<delta>)\<^sup>2 + (1 - \<delta>)\<^sup>2 = (a + 1) * (1 - \<delta>)\<^sup>2"
      by (simp add: algebra_simps)
    also have "\<dots> \<le> b * (1 - \<delta>)\<^sup>2"
      using b1 by (intro mult_right_mono) simp_all
    finally have "a * (1 + \<delta>)\<^sup>2 < b * (1 - \<delta>)\<^sup>2" .
    moreover have "(sqrt a * (1 + \<delta>))\<^sup>2 = a * (1 + \<delta>)\<^sup>2"
      using assms(3) by (simp add: power_mult_distrib)
    moreover have "(sqrt b * (1 - \<delta>))\<^sup>2 = b * (1 - \<delta>)\<^sup>2"
      using \<open>1 \<le> b\<close> by (simp add: power_mult_distrib)
    ultimately have "(sqrt a * (1 + \<delta>))\<^sup>2 < (sqrt b * (1 - \<delta>))\<^sup>2"
      by simp
    moreover have "0 \<le> sqrt b * (1 - \<delta>)"
      using sb by (simp add: \<delta>_def)
    ultimately have "sqrt a * (1 + \<delta>) < sqrt b * (1 - \<delta>)"
      by (rule power2_less_imp_less)
    with ua lb show ?thesis by linarith
  qed
qed

lemma rnd_sqrt_less_iff:
  assumes "a \<in> \<int>" and "b \<in> \<int>" and "0 \<le> a" and "0 \<le> b" and "a \<le> 2 ^ 40" and "b \<le> 2 ^ 40"
  shows "(rnd (sqrt a) < rnd (sqrt b)) = (a < b)"
    and "(rnd (sqrt a) \<le> rnd (sqrt b)) = (a \<le> b)"
    and "(rnd (sqrt a) = rnd (sqrt b)) = (a = b)"
proof -
  have 1: "rnd (sqrt a) < rnd (sqrt b)" if "a < b"
    using assms that by (intro rnd_sqrt_less)
  have 2: "rnd (sqrt b) < rnd (sqrt a)" if "b < a"
    using assms that by (intro rnd_sqrt_less)
  from 1 2 show "(rnd (sqrt a) < rnd (sqrt b)) = (a < b)"
    by (cases a b rule: linorder_cases) auto
  from 1 2 show "(rnd (sqrt a) \<le> rnd (sqrt b)) = (a \<le> b)"
    by (cases a b rule: linorder_cases) auto
  from 1 2 show "(rnd (sqrt a) = rnd (sqrt b)) = (a = b)"
    by (cases a b rule: linorder_cases) auto
qed

lemma rnd_sqrt_square:
  assumes "c \<in> \<int>" and "0 \<le> c" and "c \<le> 2 ^ 20"
  shows "rnd (sqrt (c * c)) = c" and "c * c \<in> \<int>" and "0 \<le> c * c" and "c * c \<le> 2 ^ 40"
proof -
  from assms show "rnd (sqrt (c * c)) = c"
    by (simp add: rnd_int)
  from assms show "c * c \<in> \<int>" and "0 \<le> c * c"
    by simp_all
  have "c * c \<le> 2 ^ 20 * 2 ^ 20"
    using assms by (intro mult_mono) simp_all
  then show "c * c \<le> 2 ^ 40" by simp
qed

lemma num_rnd_sqrt_iff:
  assumes "c \<in> \<int>" and "0 \<le> c" and "c \<le> 2 ^ 20" and "k \<in> \<int>" and "0 \<le> k" and "k \<le> 2 ^ 40"
  shows "(c < rnd (sqrt k)) = (c * c < k)"
    and "(rnd (sqrt k) < c) = (k < c * c)"
    and "(c \<le> rnd (sqrt k)) = (c * c \<le> k)"
    and "(rnd (sqrt k) \<le> c) = (k \<le> c * c)"
    and "(c = rnd (sqrt k)) = (c * c = k)"
    and "(rnd (sqrt k) = c) = (k = c * c)"
proof -
  note sq = rnd_sqrt_square [OF assms(1-3)]
  note iff = rnd_sqrt_less_iff [OF sq(2) assms(4) sq(3) assms(5) sq(4) assms(6)]
  note iff' = rnd_sqrt_less_iff [OF assms(4) sq(2) assms(5) sq(3) assms(6) sq(4)]
  from iff(1) show "(c < rnd (sqrt k)) = (c * c < k)" by (simp only: sq(1))
  from iff'(1) show "(rnd (sqrt k) < c) = (k < c * c)" by (simp only: sq(1))
  from iff(2) show "(c \<le> rnd (sqrt k)) = (c * c \<le> k)" by (simp only: sq(1))
  from iff'(2) show "(rnd (sqrt k) \<le> c) = (k \<le> c * c)" by (simp only: sq(1))
  from iff(3) show "(c = rnd (sqrt k)) = (c * c = k)" by (simp only: sq(1))
  from iff'(3) show "(rnd (sqrt k) = c) = (k = c * c)" by (simp only: sq(1))
qed

lemma mid_index_exact:
  assumes "\<bar>from\<bar> \<le> 2 ^ 52" and "\<bar>to\<bar> \<le> 2 ^ 52"
  shows "mid_index from to = from + (to - from) div 2"
proof -
  have 1: "rnd (real_of_int to - real_of_int from) = real_of_int (to - from)"
  proof -
    from assms have "\<bar>to - from\<bar> \<le> 2 ^ 53" by simp
    then have "real_of_int \<bar>to - from\<bar> \<le> real_of_int (2 ^ 53)"
      by (simp only: of_int_le_iff)
    then have "rnd (real_of_int (to - from)) = real_of_int (to - from)"
      by (intro rnd_int) simp_all
    then show ?thesis by simp
  qed
  have 2: "rnd (real_of_int (to - from) / 2) = real_of_int (to - from) / 2"
    using assms by (intro rnd_half) simp
  have 3: "real_of_int from + real_of_int (to - from) / 2 = real_of_int (from + to) / 2"
    by (simp add: field_simps)
  have 4: "rnd (real_of_int (from + to) / 2) = real_of_int (from + to) / 2"
    using assms by (intro rnd_half) simp
  have "mid_index from to = \<lfloor>real_of_int (from + to) / real_of_int 2\<rfloor>"
    by (simp only: mid_index_def 1 2 3 4) simp
  also have "\<dots> = (from + to) div 2"
    by (rule floor_divide_of_int_eq)
  finally show ?thesis by linarith
qed

lemma plus1_exact:
  assumes "\<bar>mid\<bar> \<le> 2 ^ 52"
  shows "plus1 mid = mid + 1"
proof -
  from assms have "\<bar>mid + 1\<bar> \<le> 2 ^ 53" by simp
  then have "real_of_int \<bar>mid + 1\<bar> \<le> real_of_int (2 ^ 53)"
    by (simp only: of_int_le_iff)
  then have "rnd (real_of_int (mid + 1)) = real_of_int (mid + 1)"
    by (intro rnd_int) simp_all
  then have "plus1 mid = \<lfloor>real_of_int (mid + 1)\<rfloor>"
    by (simp add: plus1_def)
  then show ?thesis by simp
qed

lemma rnd_0: "rnd 0 = 0"
  by (simp add: rnd_def)

lemma rnd_sqrt_lt_MAX:
  assumes "k \<in> \<int>" and "0 \<le> k" and "k \<le> 2 ^ 40"
  shows "rnd (sqrt k) < MAX_VALUE" and "min MAX_VALUE (rnd (sqrt k)) = rnd (sqrt k)"
    and "min (rnd (sqrt k)) MAX_VALUE = rnd (sqrt k)"
proof -
  have "rnd (sqrt k) \<le> 2 ^ 20"
    using assms by (subst num_rnd_sqrt_iff(4)) (simp_all flip: power_add)
  also have "(2::real) ^ 20 < MAX_VALUE"
    by (simp add: MAX_VALUE_def)
  finally show "rnd (sqrt k) < MAX_VALUE" .
  then show "min MAX_VALUE (rnd (sqrt k)) = rnd (sqrt k)"
    and "min (rnd (sqrt k)) MAX_VALUE = rnd (sqrt k)"
    by simp_all
qed

lemma lt_MAX_VALUE: "x \<le> 2 ^ 1000 \<Longrightarrow> x < MAX_VALUE"
  unfolding MAX_VALUE_def by (rule order_le_less_trans [where y = "2 ^ 1000"]) simp_all

lemma lt_sqrt_iff: "0 \<le> c \<Longrightarrow> (c < sqrt k) = (c * c < k)"
  by (metis abs_of_nonneg real_sqrt_abs2 real_sqrt_less_iff)

lemma sqrt_lt_iff: "0 \<le> c \<Longrightarrow> (sqrt k < c) = (k < c * c)"
  by (metis abs_of_nonneg real_sqrt_abs2 real_sqrt_less_iff)

lemma le_sqrt_iff: "0 \<le> c \<Longrightarrow> (c \<le> sqrt k) = (c * c \<le> k)"
  by (metis abs_of_nonneg real_sqrt_abs2 real_sqrt_le_iff)

lemma sqrt_le_iff: "0 \<le> c \<Longrightarrow> (sqrt k \<le> c) = (k \<le> c * c)"
  by (metis abs_of_nonneg real_sqrt_abs2 real_sqrt_le_iff)

lemmas sqrt_simps = lt_sqrt_iff sqrt_lt_iff le_sqrt_iff sqrt_le_iff

lemma MAX_VALUE_pos: "0 < MAX_VALUE" "0 \<le> MAX_VALUE" "\<not> MAX_VALUE \<le> 0" "\<not> MAX_VALUE < 0"
  "\<bar>MAX_VALUE\<bar> = MAX_VALUE"
  by (simp_all add: MAX_VALUE_def)

lemmas MAX_simps = MAX_VALUE_pos rnd_MAX_VALUE

lemma rnd_tiny: "rnd (1 / 1073741824) = 1 / 1073741824"
  "rnd (1 / 1152921504606846976) = 1 / 1152921504606846976"
proof -
  show "rnd (1 / 1073741824) = 1 / 1073741824"
    by (rule rnd_exact [where m = 1 and k = "- 30"]) (simp_all add: powr_minus_divide)
  show "rnd (1 / 1152921504606846976) = 1 / 1152921504606846976"
    by (rule rnd_exact [where m = 1 and k = "- 60"]) (simp_all add: powr_minus_divide)
qed

lemma rnd_absorb: "rnd (1152921504606846977 / 1152921504606846976) = 1"
  by (subst rnd_eval [where e = 0]) (simp_all add: roundHalfEven_def MAX_VALUE_def powr_minus_divide)

lemma mid_index_tie: "mid_index 4503599627370497 4503599627370498 = 4503599627370498"
proof -
  have 1: "rnd (real_of_int 4503599627370498 - real_of_int 4503599627370497) = 1"
    by (simp add: rnd_int)
  have 2: "rnd (1 / 2) = 1 / 2"
    using rnd_half [of 1] by simp
  have 3: "rnd (real_of_int 4503599627370497 + 1 / 2) = 4503599627370498"
    by (subst rnd_eval [where e = 52]) (simp_all add: roundHalfEven_def MAX_VALUE_def)
  show ?thesis
    unfolding mid_index_def 1 2 3 by simp
qed

lemmas eval_simps = closestPoints_def nums_at_def pts_at_def alloc_def sortOn_def
  closestPoint.simps strip.simps outer.simps inner.simps examine_def logged_def
  euclidean_def jsSqrt_def Infinity_def nth_opt_def mid_index_exact plus1_exact Let_def
  rnd_0 rnd_int rnd_sqrt_less_iff num_rnd_sqrt_iff rnd_sqrt_lt_MAX lt_MAX_VALUE

section \<open>The strip and its scan\<close>

text \<open>
  An invariant of the pair \<open>(d, st)\<close> that each examined pair preserves is preserved by
  both loops of the scan.
\<close>

lemma inner_continue:
  "j < length tmp \<Longrightarrow> rnd (py (tmp ! j) - py (tmp ! i)) < d \<Longrightarrow> examine tmp i j d st = (d', st')
   \<Longrightarrow> inner tmp i j d st = inner tmp i (j + 1) d' st'"
  by (subst inner.simps) simp

lemma inner_stop:
  "\<not> (j < length tmp \<and> rnd (py (tmp ! j) - py (tmp ! i)) < d) \<Longrightarrow> inner tmp i j d st = (d, st)"
  by (subst inner.simps) auto

lemma outer_continue:
  "i < length tmp \<Longrightarrow> inner tmp i (i + 1) d st = (d', st')
   \<Longrightarrow> outer tmp i d st = outer tmp (i + 1) d' st'"
  by (subst outer.simps) simp

lemma outer_stop: "\<not> i < length tmp \<Longrightarrow> outer tmp i d st = (d, st)"
  by (subst outer.simps) simp

lemma inner_rule:
  assumes "\<And>j d st. Q d st \<Longrightarrow> j < length tmp \<Longrightarrow>
             Q (fst (examine tmp i j d st)) (snd (examine tmp i j d st))"
    and "Q d st"
  shows "Q (fst (inner tmp i j d st)) (snd (inner tmp i j d st))"
  using assms
proof (induction tmp i j d st rule: inner.induct)
  case (1 tmp i j d st)
  note step = "1.prems"(1)
  show ?case
  proof (cases "j < length tmp \<and> rnd (py (tmp ! j) - py (tmp ! i)) < d")
    case True
    obtain d' st' where e: "examine tmp i j d st = (d', st')"
      by (cases "examine tmp i j d st")
    from True have j: "j < length tmp" and c: "rnd (py (tmp ! j) - py (tmp ! i)) < d"
      by simp_all
    from step [OF "1.prems"(2) j] have "Q d' st'"
      by (simp only: e fst_conv snd_conv)
    then have "Q (fst (inner tmp i (j + 1) d' st')) (snd (inner tmp i (j + 1) d' st'))"
      using "1.IH" [OF True e [symmetric]] step by blast
    then show ?thesis
      by (simp only: inner_continue [OF j c e])
  next
    case False
    then show ?thesis
      using inner_stop [OF False, of st] "1.prems"(2) by simp
  qed
qed

lemma outer_rule:
  assumes "\<And>i j d st. Q d st \<Longrightarrow> i < length tmp \<Longrightarrow> j < length tmp \<Longrightarrow>
             Q (fst (examine tmp i j d st)) (snd (examine tmp i j d st))"
    and "Q d st"
  shows "Q (fst (outer tmp i d st)) (snd (outer tmp i d st))"
  using assms
proof (induction tmp i d st rule: outer.induct)
  case (1 tmp i d st)
  note step = "1.prems"(1)
  show ?case
  proof (cases "i < length tmp")
    case True
    obtain d' st' where e: "inner tmp i (i + 1) d st = (d', st')"
      by (cases "inner tmp i (i + 1) d st")
    have "Q (fst (inner tmp i (i + 1) d st)) (snd (inner tmp i (i + 1) d st))"
      using step True "1.prems"(2) by (intro inner_rule [where Q = Q]) blast+
    then have "Q d' st'"
      by (simp only: e fst_conv snd_conv)
    then have "Q (fst (outer tmp (i + 1) d' st')) (snd (outer tmp (i + 1) d' st'))"
      using "1.IH" [OF True e [symmetric]] step by blast
    then show ?thesis
      by (simp only: outer_continue [OF True e])
  next
    case False
    then show ?thesis
      using outer_stop [OF False, of d st] "1.prems"(2) by simp
  qed
qed

lemma never_increases_snoc:
  "never_increases b (es @ [(x, b')]) =
     (never_increases b es \<and> b' \<le> (if es = [] then b else snd (last es)))"
  by (induction b es rule: never_increases.induct) auto

lemma running_min_snoc:
  "running_min m (es @ [(x, b')]) = (running_min m es \<and> b' = min (fold min (map fst es) m) x)"
  by (induction m es rule: running_min.induct) (auto simp: min.commute)

lemma running_min_last:
  "running_min m es \<Longrightarrow> es \<noteq> [] \<Longrightarrow> snd (last es) = fold min (map fst es) m"
  by (induction m es rule: running_min.induct) (auto simp: min.commute)

lemma fold_min_le: "fold min ds (m::real) \<le> m"
proof (induction ds arbitrary: m)
  case Nil
  then show ?case by simp
next
  case (Cons a ds)
  have "fold min ds (min a m) \<le> min a m" by (rule Cons.IH)
  then show ?case by simp
qed

lemma log_inv_bound: "log_inv st \<Longrightarrow> bestDist st \<le> MAX_VALUE"
  by (simp add: log_inv_def fold_min_le)

lemma log_inv_logged:
  assumes "log_inv st" and "b = min (bestDist st) x"
  shows "log_inv (logged x (st\<lparr>bestDist := b\<rparr>))"
proof -
  let ?es = "rev (examined st)"
  have last: "(if ?es = [] then MAX_VALUE else snd (last ?es)) = bestDist st"
    using assms(1) running_min_last [of MAX_VALUE ?es] by (auto simp: log_inv_def)
  have fold: "fold min (map fst ?es) MAX_VALUE = bestDist st"
    using assms(1) by (simp add: log_inv_def)
  show ?thesis
    using assms last fold
    by (simp add: log_inv_def logged_def never_increases_snoc running_min_snoc min.commute)
qed

lemma log_inv_cong:
  "examined st' = examined st \<Longrightarrow> bestDist st' = bestDist st \<Longrightarrow> log_inv st' = log_inv st"
  by (simp add: log_inv_def)

lemma examine_log:
  assumes "log_inv st" and "bestDist st \<le> d"
  shows "log_inv (snd (examine tmp i j d st)) \<and>
         bestDist (snd (examine tmp i j d st)) \<le> fst (examine tmp i j d st) \<and>
         bestDist (snd (examine tmp i j d st)) \<le> bestDist st"
proof -
  let ?x = "euclidean (tmp ! i) (tmp ! j)"
  have a: "log_inv (logged ?x (st\<lparr>bestDist := min (bestDist st) ?x\<rparr>))"
    using assms(1) by (rule log_inv_logged) simp
  show ?thesis
  proof (cases "?x < bestDist st")
    case True
    let ?st' = "logged ?x (st\<lparr>best1 := Some (tmp ! i), best2 := Some (tmp ! j), bestDist := ?x\<rparr>)"
    from True assms(2) have e: "examine tmp i j d st = (?x, ?st')"
      by (simp add: examine_def Let_def)
    from True have "min (bestDist st) ?x = ?x" by simp
    with a have "log_inv (logged ?x (st\<lparr>bestDist := ?x\<rparr>))" by simp
    then have "log_inv ?st'"
      by (subst log_inv_cong [of _ "logged ?x (st\<lparr>bestDist := ?x\<rparr>)"]) (simp_all add: logged_def)
    with True show ?thesis
      by (simp add: e logged_def)
  next
    case False
    then have e: "examine tmp i j d st = (if ?x < d then ?x else d, logged ?x st)"
      by (simp add: examine_def Let_def)
    from False have "min (bestDist st) ?x = bestDist st" by simp
    with a have "log_inv (logged ?x st)" by simp
    with False assms(2) show ?thesis
      by (simp add: e logged_def)
  qed
qed

lemma outer_log:
  assumes "log_inv st" and "bestDist st \<le> d" and "outer tmp i d st = (d', st')"
  shows "log_inv st' \<and> bestDist st' \<le> d' \<and> bestDist st' \<le> bestDist st"
proof -
  let ?Q = "\<lambda>d s. log_inv s \<and> bestDist s \<le> d \<and> bestDist s \<le> bestDist st"
  have "?Q (fst (outer tmp i d st)) (snd (outer tmp i d st))"
  proof (rule outer_rule [where Q = ?Q])
    fix i j d s
    assume "?Q d s"
    with examine_log [of s d tmp i j]
    show "?Q (fst (examine tmp i j d s)) (snd (examine tmp i j d s))"
      by auto
  next
    show "?Q d st" using assms by simp
  qed
  then show ?thesis by (simp add: assms(3))
qed

lemma examine_heap: "heap (snd (examine tmp i j d st)) = heap st"
  by (simp add: examine_def Let_def logged_def)

lemma outer_heap:
  assumes "outer tmp i d st = (d', st')"
  shows "heap st' = heap st"
proof -
  have "heap (snd (outer tmp i d st)) = heap st"
    by (rule outer_rule [where Q = "\<lambda>d s. heap s = heap st"]) (simp_all add: examine_heap)
  then show ?thesis by (simp add: assms)
qed

lemma strip_returns:
  assumes "0 \<le> i" and "to < int (length pY)"
  shows "\<exists>tmp'. strip pY (Some md) d i to tmp = Inr tmp' \<and> set tmp' \<subseteq> set tmp \<union> set pY"
  using assms
proof (induction "nat (to + 1 - i)" arbitrary: i tmp)
  case 0
  then have "\<not> i \<le> to" by simp
  then show ?case
    by (subst strip.simps) simp
next
  case (Suc k)
  then have le: "i \<le> to" by simp
  with Suc.prems have q: "nth_opt pY i = Some (pY ! nat i)" and m: "pY ! nat i \<in> set pY"
    by (simp_all add: nth_opt_def)
  let ?tmp = "if \<bar>rnd (px (pY ! nat i) - px md)\<bar> < d then tmp @ [pY ! nat i] else tmp"
  from Suc.hyps(2) have "k = nat (to + 1 - (i + 1))" by simp
  from Suc.hyps(1) [OF this, of ?tmp] Suc.prems obtain tmp' where
    t: "strip pY (Some md) d (i + 1) to ?tmp = Inr tmp'" "set tmp' \<subseteq> set ?tmp \<union> set pY"
    by auto
  have "strip pY (Some md) d i to tmp = strip pY (Some md) d (i + 1) to ?tmp"
    using le q by (subst strip.simps) simp
  with t m show ?case
    by (auto split: if_splits)
qed

section \<open>The recursion\<close>

text \<open>
  Properties of \<open>closestPoint\<close> for index bounds of magnitude at most \<open>2 ^ 52\<close>, each by
  induction on the size of the index range; and a call whose midpoint is \<open>to\<close> calls
  itself and does not return.
\<close>

lemma sortOn_Inr:
  assumes "sortOn prop a st = Inr st'"
  obtains ps where "pts_at st a = Some ps"
    and "st' = st\<lparr>heap := (heap st)[a := Pts (sort_key prop ps)]\<rparr>"
  using assms by (auto simp: sortOn_def split: option.splits)

lemma pts_at_update:
  "pts_at (st\<lparr>heap := (heap st)[a := Pts ps]\<rparr>) b =
     (if b = a \<and> a < length (heap st) then Some ps else pts_at st b)"
  by (auto simp: pts_at_def)

lemma pts_at_frame:
  "length (heap st') = length (heap st) \<Longrightarrow> heap st' ! a = heap st ! a \<Longrightarrow> pts_at st' a = pts_at st a"
  by (simp add: pts_at_def)

lemma pts_at_length: "pts_at st a = Some ps \<Longrightarrow> a < length (heap st)"
  by (simp add: pts_at_def split: if_splits)

lemma closestPoint_base:
  "to \<le> from \<Longrightarrow> closestPoint ax ay from to st = Some (Inr (MAX_VALUE, st))"
  by (subst closestPoint.simps) simp

lemma bind_sum_SomeE:
  assumes "Option.bind x (\<lambda>l. case l of Inl e \<Rightarrow> Some (Inl e) | Inr v \<Rightarrow> f v) = Some (Inr w)"
  obtains v where "x = Some (Inr v)" and "f v = Some (Inr w)"
proof -
  from assms obtain l where "x = Some l"
    and "(case l of Inl e \<Rightarrow> Some (Inl e) | Inr v \<Rightarrow> f v) = Some (Inr w)"
    by (auto simp: bind_eq_Some_conv)
  then show ?thesis
    using that by (cases l) auto
qed

lemma closestPoint_unfold:
  assumes "from < to" and "\<bar>from\<bar> \<le> 2 ^ 52" and "\<bar>to\<bar> \<le> 2 ^ 52"
    and "mid = from + (to - from) div 2"
  shows "closestPoint ax ay from to st =
     (case pts_at st ax of
        None \<Rightarrow> Some (Inl TypeError)
      | Some pX \<Rightarrow>
          Option.bind (closestPoint ax ay from mid st)
            (\<lambda>l. case l of
               Inl e \<Rightarrow> Some (Inl e)
             | Inr (left, st1) \<Rightarrow>
          Option.bind (closestPoint ax ay (mid + 1) to st1)
            (\<lambda>r. case r of
               Inl e \<Rightarrow> Some (Inl e)
             | Inr (right, st2) \<Rightarrow>
          (case sortOn py ay st2 of
             Inl e \<Rightarrow> Some (Inl e)
           | Inr st3 \<Rightarrow>
          (case pts_at st3 ay of
             None \<Rightarrow> Some (Inl TypeError)
           | Some pY \<Rightarrow>
          (case strip pY (nth_opt pX mid) (min left right) from to [] of
             Inl e \<Rightarrow> Some (Inl e)
           | Inr tmp \<Rightarrow> Some (Inr (outer tmp 0 (min left right) st3))))))))"
proof -
  from assms(2,3) have m: "mid_index from to = mid"
    unfolding assms(4) by (rule mid_index_exact)
  from assms have "\<bar>mid\<bar> \<le> 2 ^ 52"
    by linarith
  then have p: "plus1 mid = mid + 1"
    by (rule plus1_exact)
  from assms(1) show ?thesis
    by (subst closestPoint.simps, unfold m p) simp
qed

lemma closestPoint_step:
  assumes "closestPoint ax ay from to st = Some (Inr (d, st'))" and "from < to"
    and "\<bar>from\<bar> \<le> 2 ^ 52" and "\<bar>to\<bar> \<le> 2 ^ 52"
  obtains mid pX left st1 right st2 st3 pY tmp where
    "mid = from + (to - from) div 2"
    "pts_at st ax = Some pX"
    "closestPoint ax ay from mid st = Some (Inr (left, st1))"
    "closestPoint ax ay (mid + 1) to st1 = Some (Inr (right, st2))"
    "sortOn py ay st2 = Inr st3"
    "pts_at st3 ay = Some pY"
    "strip pY (nth_opt pX mid) (min left right) from to [] = Inr tmp"
    "outer tmp 0 (min left right) st3 = (d, st')"
proof -
  define mid where "mid = from + (to - from) div 2"
  note u = closestPoint_unfold [OF assms(2-4) mid_def, of ax ay st]
  from assms(1) [unfolded u] obtain pX where x: "pts_at st ax = Some pX"
    by (cases "pts_at st ax") auto
  from assms(1) [unfolded u x option.case] obtain v where
    l: "closestPoint ax ay from mid st = Some (Inr v)" and
    b2: "(case v of (left, st1) \<Rightarrow>
          Option.bind (closestPoint ax ay (mid + 1) to st1)
            (\<lambda>r. case r of
               Inl e \<Rightarrow> Some (Inl e)
             | Inr (right, st2) \<Rightarrow>
          (case sortOn py ay st2 of
             Inl e \<Rightarrow> Some (Inl e)
           | Inr st3 \<Rightarrow>
          (case pts_at st3 ay of
             None \<Rightarrow> Some (Inl TypeError)
           | Some pY \<Rightarrow>
          (case strip pY (nth_opt pX mid) (min left right) from to [] of
             Inl e \<Rightarrow> Some (Inl e)
           | Inr tmp \<Rightarrow> Some (Inr (outer tmp 0 (min left right) st3)))))))
        = Some (Inr (d, st'))"
    by (rule bind_sum_SomeE)
  obtain left st1 where v: "v = (left, st1)" by (cases v)
  from b2 [unfolded v prod.case] obtain w where
    r: "closestPoint ax ay (mid + 1) to st1 = Some (Inr w)" and
    b3: "(case w of (right, st2) \<Rightarrow>
          (case sortOn py ay st2 of
             Inl e \<Rightarrow> Some (Inl e)
           | Inr st3 \<Rightarrow>
          (case pts_at st3 ay of
             None \<Rightarrow> Some (Inl TypeError)
           | Some pY \<Rightarrow>
          (case strip pY (nth_opt pX mid) (min left right) from to [] of
             Inl e \<Rightarrow> Some (Inl e)
           | Inr tmp \<Rightarrow> Some (Inr (outer tmp 0 (min left right) st3))))))
        = Some (Inr (d, st'))"
    by (rule bind_sum_SomeE)
  obtain right st2 where w: "w = (right, st2)" by (cases w)
  from b3 [unfolded w prod.case] obtain st3 pY tmp where
    "sortOn py ay st2 = Inr st3" "pts_at st3 ay = Some pY"
    "strip pY (nth_opt pX mid) (min left right) from to [] = Inr tmp"
    "outer tmp 0 (min left right) st3 = (d, st')"
    by (auto split: sum.splits option.splits)
  with x l r v w mid_def show ?thesis
    by (intro that [of mid pX left st1 right st2 st3 pY tmp]) simp_all
qed

lemma range_step:
  assumes "from < to" and "\<bar>from\<bar> \<le> 2 ^ 52" and "\<bar>to\<bar> \<le> 2 ^ 52"
    and "mid = from + (to - from) div 2"
  shows "nat (mid - from) < nat (to - from)" and "nat (to - (mid + 1)) < nat (to - from)"
    and "\<bar>mid\<bar> \<le> 2 ^ 52" and "\<bar>mid + 1\<bar> \<le> 2 ^ 52"
    and "from \<le> mid" and "mid < to"
  using assms by simp_all

lemma closestPoint_log:
  assumes "closestPoint ax ay from to st = Some (Inr (d, st'))" and "log_inv st"
    and "\<bar>from\<bar> \<le> 2 ^ 52" and "\<bar>to\<bar> \<le> 2 ^ 52"
  shows "log_inv st' \<and> bestDist st' \<le> d \<and> bestDist st' \<le> bestDist st"
  using assms
proof (induction "nat (to - from)" arbitrary: "from" "to" st d st' rule: less_induct)
  case less
  show ?case
  proof (cases "to \<le> from")
    case True
    with less.prems show ?thesis
      by (simp add: closestPoint_base log_inv_bound)
  next
    case False
    then have lt: "from < to" by simp
    from less.prems(1) lt less.prems(3,4) obtain mid pX left st1 right st2 st3 pY tmp where
      mid: "mid = from + (to - from) div 2" and
      l: "closestPoint ax ay from mid st = Some (Inr (left, st1))" and
      r: "closestPoint ax ay (mid + 1) to st1 = Some (Inr (right, st2))" and
      s: "sortOn py ay st2 = Inr st3" and
      out: "outer tmp 0 (min left right) st3 = (d, st')"
      by (rule closestPoint_step)
    note rs = range_step [OF lt less.prems(3,4) mid]
    from less.hyps [OF rs(1) l less.prems(2,3) rs(3)]
    have i1: "log_inv st1" "bestDist st1 \<le> left" "bestDist st1 \<le> bestDist st"
      by simp_all
    from less.hyps [OF rs(2) r i1(1) rs(4) less.prems(4)]
    have i2: "log_inv st2" "bestDist st2 \<le> right" "bestDist st2 \<le> bestDist st1"
      by simp_all
    from s have i3: "log_inv st3 = log_inv st2" "bestDist st3 = bestDist st2"
      by (auto elim!: sortOn_Inr simp: log_inv_def)
    from i1 i2 i3 have "log_inv st3" "bestDist st3 \<le> min left right"
      by simp_all
    from outer_log [OF this out] i1 i2 i3 show ?thesis
      by simp
  qed
qed

lemma closestPoint_frame:
  assumes "closestPoint ax ay from to st = Some (Inr (d, st'))"
    and "\<bar>from\<bar> \<le> 2 ^ 52" and "\<bar>to\<bar> \<le> 2 ^ 52"
  shows "length (heap st') = length (heap st) \<and> (\<forall>a. a \<noteq> ay \<longrightarrow> heap st' ! a = heap st ! a)"
  using assms
proof (induction "nat (to - from)" arbitrary: "from" "to" st d st' rule: less_induct)
  case less
  show ?case
  proof (cases "to \<le> from")
    case True
    with less.prems show ?thesis
      by (simp add: closestPoint_base)
  next
    case False
    then have lt: "from < to" by simp
    from less.prems(1) lt less.prems(2,3) obtain mid pX left st1 right st2 st3 pY tmp where
      mid: "mid = from + (to - from) div 2" and
      l: "closestPoint ax ay from mid st = Some (Inr (left, st1))" and
      r: "closestPoint ax ay (mid + 1) to st1 = Some (Inr (right, st2))" and
      s: "sortOn py ay st2 = Inr st3" and
      out: "outer tmp 0 (min left right) st3 = (d, st')"
      by (rule closestPoint_step)
    note rs = range_step [OF lt less.prems(2,3) mid]
    note i1 = less.hyps [OF rs(1) l less.prems(2) rs(3)]
    note i2 = less.hyps [OF rs(2) r rs(4) less.prems(3)]
    from s have i3: "length (heap st3) = length (heap st2)"
      "\<forall>a. a \<noteq> ay \<longrightarrow> heap st3 ! a = heap st2 ! a"
      by (auto elim!: sortOn_Inr)
    from outer_heap [OF out] i1 i2 i3 show ?thesis
      by simp
  qed
qed

lemma closestPoint_pts:
  assumes "closestPoint ax ay from to st = Some (Inr (d, st'))" and "pts_at st ay = Some pY"
    and "\<bar>from\<bar> \<le> 2 ^ 52" and "\<bar>to\<bar> \<le> 2 ^ 52"
  shows "\<exists>pY'. pts_at st' ay = Some pY' \<and> length pY' = length pY \<and> set pY' = set pY"
  using assms
proof (induction "nat (to - from)" arbitrary: "from" "to" st d st' pY rule: less_induct)
  case less
  show ?case
  proof (cases "to \<le> from")
    case True
    with less.prems show ?thesis
      by (simp add: closestPoint_base)
  next
    case False
    then have lt: "from < to" by simp
    from less.prems(1) lt less.prems(3,4) obtain mid pX left st1 right st2 st3 pY3 tmp where
      mid: "mid = from + (to - from) div 2" and
      l: "closestPoint ax ay from mid st = Some (Inr (left, st1))" and
      r: "closestPoint ax ay (mid + 1) to st1 = Some (Inr (right, st2))" and
      s: "sortOn py ay st2 = Inr st3" and
      out: "outer tmp 0 (min left right) st3 = (d, st')"
      by (rule closestPoint_step)
    note rs = range_step [OF lt less.prems(3,4) mid]
    from less.hyps [OF rs(1) l less.prems(2,3) rs(3)] obtain pY1 where
      p1: "pts_at st1 ay = Some pY1" "length pY1 = length pY" "set pY1 = set pY"
      by blast
    from less.hyps [OF rs(2) r p1(1) rs(4) less.prems(4)] obtain pY2 where
      p2: "pts_at st2 ay = Some pY2" "length pY2 = length pY1" "set pY2 = set pY1"
      by blast
    from s p2(1) have "pts_at st3 ay = Some (sort_key py pY2)"
      by (auto elim!: sortOn_Inr simp: pts_at_update dest: pts_at_length)
    moreover from outer_heap [OF out] have "pts_at st' ay = pts_at st3 ay"
      by (simp add: pts_at_def)
    ultimately show ?thesis
      using p1 p2 by simp
  qed
qed

lemma closestPoint_returns:
  assumes "pts_at st ax = Some pX" and "pts_at st ay = Some pY" and "ax \<noteq> ay"
    and "length pY = length pX" and "0 \<le> from" and "to < int (length pX)"
    and "length pX \<le> 2 ^ 52"
  shows "\<exists>d st'. closestPoint ax ay from to st = Some (Inr (d, st'))"
  using assms
proof (induction "nat (to - from)" arbitrary: "from" "to" st pY rule: less_induct)
  case less
  show ?case
  proof (cases "to \<le> from")
    case True
    then show ?thesis
      by (simp add: closestPoint_base)
  next
    case False
    then have lt: "from < to" by simp
    define mid where "mid = from + (to - from) div 2"
    from less.prems(5,6,7) lt have rg: "\<bar>from\<bar> \<le> 2 ^ 52" "\<bar>to\<bar> \<le> 2 ^ 52"
      by simp_all
    note rs = range_step [OF lt rg mid_def]
    from less.hyps [OF rs(1) less.prems(1-5) _ less.prems(7)] less.prems(6) rs(6)
    obtain left st1 where l: "closestPoint ax ay from mid st = Some (Inr (left, st1))"
      by auto
    from closestPoint_frame [OF l rg(1) rs(3)] less.prems(3)
    have "pts_at st1 ax = pts_at st ax"
      by (intro pts_at_frame) auto
    with less.prems(1) have x1: "pts_at st1 ax = Some pX"
      by simp
    from closestPoint_pts [OF l less.prems(2) rg(1) rs(3)] obtain pY1 where
      y1: "pts_at st1 ay = Some pY1" "length pY1 = length pY"
      by blast
    from less.hyps [OF rs(2) x1 y1(1) less.prems(3) _ _ less.prems(6,7)] y1(2) less.prems(4,5)
      rs(5)
    obtain right st2 where r: "closestPoint ax ay (mid + 1) to st1 = Some (Inr (right, st2))"
      by auto
    from closestPoint_pts [OF r y1(1) rs(4) rg(2)] obtain pY2 where
      y2: "pts_at st2 ay = Some pY2" "length pY2 = length pY1"
      by blast
    let ?st3 = "st2\<lparr>heap := (heap st2)[ay := Pts (sort_key py pY2)]\<rparr>"
    from y2(1) have s: "sortOn py ay st2 = Inr ?st3"
      by (simp add: sortOn_def)
    from y2(1) have y3: "pts_at ?st3 ay = Some (sort_key py pY2)"
      by (simp add: pts_at_update pts_at_length)
    from rs(5,6) less.prems(5,6) have md: "nth_opt pX mid = Some (pX ! nat mid)"
      by (simp add: nth_opt_def)
    from less.prems(4,5,6) y1(2) y2(2) have "to < int (length (sort_key py pY2))"
      by simp
    from strip_returns [OF less.prems(5) this, of "pX ! nat mid" "min left right" "[]"]
    obtain tmp where
      t: "strip (sort_key py pY2) (Some (pX ! nat mid)) (min left right) from to [] = Inr tmp"
      by auto
    show ?thesis
      using less.prems(1) l r s y3 md t
      by (simp add: closestPoint_unfold [OF lt rg mid_def])
  qed
qed

lemma closestPoint_total:
  assumes "\<bar>from\<bar> \<le> 2 ^ 52" and "\<bar>to\<bar> \<le> 2 ^ 52"
  shows "\<exists>r. closestPoint ax ay from to st = Some r"
  using assms
proof (induction "nat (to - from)" arbitrary: "from" "to" st rule: less_induct)
  case less
  show ?case
  proof (cases "to \<le> from")
    case True
    then show ?thesis
      by (simp add: closestPoint_base)
  next
    case False
    then have lt: "from < to" by simp
    define mid where "mid = from + (to - from) div 2"
    note rs = range_step [OF lt less.prems mid_def]
    note u = closestPoint_unfold [OF lt less.prems mid_def, of ax ay st]
    from less.hyps [OF rs(1) less.prems(1) rs(3)]
    obtain l where l: "closestPoint ax ay from mid st = Some l"
      by blast
    have r: "\<exists>r. closestPoint ax ay (mid + 1) to st1 = Some r" for st1
      by (rule less.hyps [OF rs(2) rs(4) less.prems(2)])
    show ?thesis
    proof (cases "pts_at st ax")
      case None
      then show ?thesis by (simp add: u)
    next
      case (Some pX)
      show ?thesis
      proof (cases l)
        case (Inl e)
        with Some l show ?thesis by (simp add: u)
      next
        case (Inr v)
        obtain left st1 where v: "v = (left, st1)" by (cases v)
        from r [of st1] obtain r' where r': "closestPoint ax ay (mid + 1) to st1 = Some r'"
          by blast
        with Some l Inr v show ?thesis
          by (simp add: u split: sum.splits option.splits prod.splits)
      qed
    qed
  qed
qed

lemma closestPoint_same_range:
  assumes "from < to" and "mid_index from to = to" and "pts_at st ax = Some pX"
  shows "closestPoint ax ay from to st = None"
proof (rule ccontr)
  assume "closestPoint ax ay from to st \<noteq> None"
  then obtain y where y: "closestPoint ax ay from to st = Some y"
    by auto
  have "(ax, ay, from, to, st) \<noteq> (ax, ay, from, to, st)"
  proof (rule closestPoint.raw_induct
      [where P = "\<lambda>a b f t s y. (a, b, f, t, s) \<noteq> (ax, ay, from, to, st)", OF _ y])
    fix cp :: "addr \<Rightarrow> addr \<Rightarrow> int \<Rightarrow> int \<Rightarrow> state \<Rightarrow> (error + (real \<times> state)) option"
      and a b f t s z
    assume ih: "\<And>a b f t s y. cp a b f t s = Some y \<Longrightarrow> (a, b, f, t, s) \<noteq> (ax, ay, from, to, st)"
      and body: "(if t \<le> f then Some (Inr (MAX_VALUE, s))
        else case pts_at s a of None \<Rightarrow> Some (Inl TypeError)
          | Some pX \<Rightarrow>
              Option.bind (cp a b f (mid_index f t) s)
                (\<lambda>l. case l of Inl e \<Rightarrow> Some (Inl e)
                   | Inr (left, st1) \<Rightarrow>
                       Option.bind (cp a b (plus1 (mid_index f t)) t st1)
                         (\<lambda>r. case r of Inl e \<Rightarrow> Some (Inl e)
                            | Inr (right, st2) \<Rightarrow>
                                (case sortOn py b st2 of Inl e \<Rightarrow> Some (Inl e)
                                 | Inr st3 \<Rightarrow>
                                     (case pts_at st3 b of None \<Rightarrow> Some (Inl TypeError)
                                      | Some pY \<Rightarrow>
                                          (case strip pY (nth_opt pX (mid_index f t))
                                                 (min left right) f t [] of
                                             Inl e \<Rightarrow> Some (Inl e)
                                           | Inr tmp \<Rightarrow>
                                               Some (Inr (outer tmp 0 (min left right) st3)))))))) =
        Some z"
    show "(a, b, f, t, s) \<noteq> (ax, ay, from, to, st)"
    proof
      assume e: "(a, b, f, t, s) = (ax, ay, from, to, st)"
      with body assms obtain l where "cp ax ay from to st = Some l"
        by (cases "cp ax ay from to st") auto
      from ih [OF this] show False
        by simp
    qed
  qed
  then show False
    by simp
qed

section \<open>The entry point\<close>

lemma nums_at_length: "nums_at st a = Some xs \<Longrightarrow> length xs < 2 ^ 32"
  by (simp add: nums_at_def split: if_splits arr.splits)

lemma closestPoints_general:
  assumes "nums_at st ax = Some xs" and "nums_at st ay = Some ys"
    and "length xs = length ys" and "2 \<le> length xs" and "length xs \<noteq> 3"
  shows "closestPoints (Some ax) (Some ay) st =
     (case closestPoint (length (heap st)) (length (heap st) + 1) 0 (int (length xs) - 1)
             (entry st xs ys) of
        None \<Rightarrow> None
      | Some (Inl e) \<Rightarrow> Some (Inl e)
      | Some (Inr (d, st5)) \<Rightarrow> Some (Inr ([best1 st5, best2 st5], st5)))"
  using assms
  by (auto simp: closestPoints_def Let_def alloc_def sortOn_def pts_at_def entry_def
      sortedPoints_def nth_append)

lemma entry_pts:
  "pts_at (entry st xs ys) (length (heap st)) = Some (sortedPoints xs ys)"
  "pts_at (entry st xs ys) (length (heap st) + 1) = Some (sortedPoints xs ys)"
  by (simp_all add: entry_def pts_at_def nth_append)

lemma length_sortedPoints: "length (sortedPoints xs ys) = length xs"
  by (simp add: sortedPoints_def)

lemma entry_returns:
  assumes "1 \<le> length xs" and "length xs < 2 ^ 32"
  shows "\<exists>d st'. closestPoint (length (heap st)) (length (heap st) + 1) 0
           (int (length xs) - 1) (entry st xs ys) = Some (Inr (d, st'))"
  using assms by (intro closestPoint_returns [OF entry_pts]) (simp_all add: length_sortedPoints)

lemma log_inv_entry: "log_inv (entry st xs ys)"
  by (simp add: log_inv_def entry_def)

lemma nums_at_frame:
  assumes "length (heap st) \<le> length (heap st')" and "take (length (heap st)) (heap st') = heap st"
    and "nums_at st a = Some xs"
  shows "nums_at st' a = Some xs"
proof -
  from assms(3) have a: "a < length (heap st)"
    by (simp add: nums_at_def split: if_splits)
  with assms(2) have "heap st' ! a = heap st ! a"
    by (metis nth_take)
  with a assms(1,3) show ?thesis
    by (simp add: nums_at_def)
qed

lemma closestPoints_null:
  "closestPoints None ycoord st = Some (Inr ([], st))"
  "closestPoints xcoord None st = Some (Inr ([], st))"
  by (simp_all add: closestPoints_def split: option.splits)

lemma closestPoints_three_eq:
  assumes "nums_at st ax = Some [x0, x1, x2]" and "nums_at st ay = Some [y0, y1, y2]"
  shows "closestPoints (Some ax) (Some ay) st =
     (let ps = sort_key px [Point x0 y0, Point x1 y1, Point x2 y2];
          p0 = ps ! 0; p1 = ps ! 1; p2 = ps ! 2
      in Some (Inr (if euclidean p1 p2 < euclidean p0 p1 then [Some p1, Some p2]
              else [Some p0, Some p1],
           st\<lparr>best1 := None, best2 := None, bestDist := euclidean p0 p1,
              examined := [(euclidean p1 p2, euclidean p0 p1), (euclidean p0 p1, euclidean p0 p1)],
              heap := heap st @ [Pts ps]\<rparr>)))"
proof -
  have "[0..<3] = [0, 1, 2]"
    by (simp add: upt_rec)
  with assms show ?thesis
    by (simp add: closestPoints_def Let_def alloc_def sortOn_def pts_at_def logged_def nth_append
        numeral_3_eq_3 del: sort_key_simps upt_Suc)
qed

lemma length3E:
  assumes "length xs = 3"
  obtains a b c where "xs = [a, b, c]"
  using assms by (auto simp: numeral_3_eq_3 length_Suc_conv)

lemma closestPoints_returns:
  assumes "nums_at st ax = Some xs" and "nums_at st ay = Some ys"
  shows "\<exists>r st'. closestPoints (Some ax) (Some ay) st = Some (Inr (r, st'))"
proof -
  have "xs = [] \<or> length xs = 1 \<or> 2 \<le> length xs"
    using length_0_conv [of xs] by arith
  then consider "xs = [] \<or> ys = [] \<or> length xs \<noteq> length ys \<or> length xs = 1"
    | "length xs = length ys" "length xs = 3"
    | "length xs = length ys" "2 \<le> length xs" "length xs \<noteq> 3"
    by blast
  then show ?thesis
  proof cases
    case 1
    with assms show ?thesis
      by (auto simp: closestPoints_def)
  next
    case 2
    then obtain x0 x1 x2 y0 y1 y2 where "xs = [x0, x1, x2]" "ys = [y0, y1, y2]"
      by (metis length3E)
    with assms show ?thesis
      by (simp add: closestPoints_three_eq Let_def)
  next
    case 3
    from entry_returns [of xs st ys] 3 nums_at_length [OF assms(1)] obtain d st' where
      "closestPoint (length (heap st)) (length (heap st) + 1) 0 (int (length xs) - 1)
         (entry st xs ys) = Some (Inr (d, st'))"
      by auto
    with assms 3 show ?thesis
      by (simp add: closestPoints_general)
  qed
qed

lemma closestPoints_prefix:
  assumes "closestPoints xcoord ycoord st = Some (Inr (r, st'))"
  shows "take (length (heap st)) (heap st') = heap st"
proof (cases "\<exists>ax ay xs ys. xcoord = Some ax \<and> ycoord = Some ay \<and> nums_at st ax = Some xs \<and>
    nums_at st ay = Some ys \<and> length xs = length ys \<and> 2 \<le> length xs")
  case False
  with assms have "st' = st"
    by (auto simp: closestPoints_def Let_def not_le split: option.splits if_splits
        dest: less_2_cases)
  then show ?thesis by simp
next
  case True
  then obtain ax ay xs ys where a: "xcoord = Some ax" "ycoord = Some ay"
    "nums_at st ax = Some xs" "nums_at st ay = Some ys" "length xs = length ys" "2 \<le> length xs"
    by blast
  show ?thesis
  proof (cases "length xs = 3")
    case True
    with a obtain x0 x1 x2 y0 y1 y2 where "xs = [x0, x1, x2]" "ys = [y0, y1, y2]"
      by (metis length3E)
    with a assms show ?thesis
      by (auto simp: closestPoints_three_eq Let_def)
  next
    case False
    let ?p = "length (heap st)"
    from a False assms obtain d where
      c: "closestPoint ?p (?p + 1) 0 (int (length xs) - 1) (entry st xs ys) = Some (Inr (d, st'))"
      by (auto simp: closestPoints_general split: option.splits sum.splits)
    from nums_at_length [OF a(3)] have "\<bar>int (length xs) - 1\<bar> \<le> 2 ^ 52"
      by simp
    from closestPoint_frame [OF c _ this]
    have "length (heap st') = ?p + 2" and "\<forall>a < ?p. heap st' ! a = heap st ! a"
      by (simp_all add: entry_def nth_append)
    then show ?thesis
      by (simp add: list_eq_iff_nth_eq)
  qed
qed

section \<open>The closest pair for four points and more\<close>

text \<open>
  C1. The claim: for every input of \<open>n \<ge> 4\<close> points the tracked best distance is, after
  the top-level call, the least distance over all pairs, and \<open>closestPoints\<close> returns
  that pair. The code does not do this. Each call sorts the whole of \<open>pointsByY\<close> and
  then reads its positions \<open>from..to\<close>, which are not the points of
  \<open>pointsByX\<close> at \<open>from..to\<close>. For the points \<open>(0,0)\<close>, \<open>(6,8)\<close>, \<open>(20,10)\<close>,
  \<open>(23,6)\<close> the call returns \<open>(0,0)\<close> and \<open>(6,8)\<close>, at distance 10, with
  \<^verbatim>\<open>_bestDist\<close> 10, while \<open>(20,10)\<close> and \<open>(23,6)\<close> are at distance 5, computed or
  exact, and 5 is the least distance over all pairs.
\<close>

theorem closestPoints_misses_closest_pair:
  "closestPoints (Some 0) (Some 1) (caller [0, 6, 20, 23] [0, 8, 10, 6]) =
     Some (Inr ([Some (Point 0 0), Some (Point 6 8)],
       \<lparr>heap = [Nums [0, 6, 20, 23], Nums [0, 8, 10, 6],
          Pts [Point 0 0, Point 6 8, Point 20 10, Point 23 6],
          Pts [Point 0 0, Point 23 6, Point 6 8, Point 20 10]],
        best1 = Some (Point 0 0), best2 = Some (Point 6 8), bestDist = 10,
        examined = [(rnd (sqrt 200), 10), (10, 10), (rnd (sqrt 200), rnd (sqrt 200)), (rnd (sqrt 565), rnd (sqrt 565))]\<rparr>))
   \<and> euclidean (Point 0 0) (Point 6 8) = 10
   \<and> euclidean (Point 20 10) (Point 23 6) = 5
   \<and> exactDistance (Point 0 0) (Point 6 8) = 10
   \<and> exactDistance (Point 20 10) (Point 23 6) = 5
   \<and> bruteForce [Point 0 0, Point 6 8, Point 20 10, Point 23 6] = 5"
  by (simp add: eval_simps sqrt_simps caller_def bruteForce_def exactDistance_def)

text \<open>
  C2. The claim: for \<open>n \<ge> 2\<close> points the distance of the returned pair is the least
  of all pairwise distances, as brute force computes it. For the points \<open>(6,2)\<close>,
  \<open>(5,4)\<close>, \<open>(1,3)\<close>, \<open>(2,6)\<close> the returned pair is at distance \<open>sqrt 10\<close> and
  brute force gives \<open>sqrt 5\<close>; the doubles the code computes for the two are
  different as well.
\<close>

theorem closestPoints_differs_from_bruteForce:
  "closestPoints (Some 0) (Some 1) (caller [6, 5, 1, 2] [2, 4, 3, 6]) =
     Some (Inr ([Some (Point 1 3), Some (Point 2 6)],
       \<lparr>heap = [Nums [6, 5, 1, 2], Nums [2, 4, 3, 6],
          Pts [Point 1 3, Point 2 6, Point 5 4, Point 6 2],
          Pts [Point 6 2, Point 1 3, Point 5 4, Point 2 6]],
        best1 = Some (Point 1 3), best2 = Some (Point 2 6), bestDist = rnd (sqrt 10),
        examined = [(rnd (sqrt 13), rnd (sqrt 10)), (rnd (sqrt 10), rnd (sqrt 10)), (rnd (sqrt 17), rnd (sqrt 13)), (rnd (sqrt 13), rnd (sqrt 13)), (rnd (sqrt 26), rnd (sqrt 26))]\<rparr>))
   \<and> euclidean (Point 1 3) (Point 2 6) = rnd (sqrt 10)
   \<and> exactDistance (Point 1 3) (Point 2 6) = sqrt 10
   \<and> bruteForce [Point 6 2, Point 5 4, Point 1 3, Point 2 6] = sqrt 5
   \<and> sqrt 5 < sqrt 10
   \<and> euclidean (Point 6 2) (Point 5 4) = rnd (sqrt 5)
   \<and> rnd (sqrt 5) < rnd (sqrt 10)"
  by (simp add: eval_simps sqrt_simps caller_def bruteForce_def exactDistance_def)

section \<open>The fixture of twenty points\<close>

text \<open>
  C5. For the twenty points of the test suite the returned pair is \<open>(0,-2)\<close>,
  \<open>(1,-2)\<close>; its distance, as the code computes it and as a real number, is within
  \<open>1/1000\<close> of 1, and 1 is the least pairwise distance of the point set.
\<close>

theorem closestPoints_fixture:
  "closestPoints (Some 0) (Some 1) (caller [(- 2), 1, 2, 0, (- 8), (- 7), (- 8), 5, 1, 1, (- 2), 5, 4, 3, (- 5), 8, 4, 2, 1, 0] [0, 3, 4, (- 2), (- 3), 4, 2, 0, 1, 2, (- 2), (- 1), 4, 0, 2, (- 2), 3, (- 3), (- 2), 1]) =
     Some (Inr ([Some (Point 0 (- 2)), Some (Point 1 (- 2))],
       \<lparr>heap = [Nums [(- 2), 1, 2, 0, (- 8), (- 7), (- 8), 5, 1, 1, (- 2), 5, 4, 3, (- 5), 8, 4, 2, 1, 0], Nums [0, 3, 4, (- 2), (- 3), 4, 2, 0, 1, 2, (- 2), (- 1), 4, 0, 2, (- 2), 3, (- 3), (- 2), 1],
          Pts [Point (- 8) (- 3), Point (- 8) 2, Point (- 7) 4, Point (- 5) 2, Point (- 2) 0, Point (- 2) (- 2), Point 0 (- 2), Point 0 1, Point 1 3, Point 1 1, Point 1 2, Point 1 (- 2), Point 2 4, Point 2 (- 3), Point 3 0, Point 4 4, Point 4 3, Point 5 0, Point 5 (- 1), Point 8 (- 2)],
          Pts [Point (- 8) (- 3), Point 2 (- 3), Point (- 2) (- 2), Point 0 (- 2), Point 1 (- 2), Point 8 (- 2), Point 5 (- 1), Point (- 2) 0, Point 3 0, Point 5 0, Point 0 1, Point 1 1, Point (- 8) 2, Point (- 5) 2, Point 1 2, Point 1 3, Point 4 3, Point (- 7) 4, Point 2 4, Point 4 4]],
        best1 = Some (Point 0 (- 2)), best2 = Some (Point 1 (- 2)), bestDist = 1,
        examined = [(1, 1), (2, 1), (3, 1), (6, 1), (1, 1), (2, 1), (rnd (sqrt 10), 1), (1, 1), (rnd (sqrt 37), rnd (sqrt 37)), (10, 10)]\<rparr>))
   \<and> \<bar>euclidean (Point 0 (- 2)) (Point 1 (- 2)) - 1\<bar> < 1 / 1000
   \<and> \<bar>exactDistance (Point 0 (- 2)) (Point 1 (- 2)) - 1\<bar> < 1 / 1000
   \<and> bruteForce (map2 Point [(- 2), 1, 2, 0, (- 8), (- 7), (- 8), 5, 1, 1, (- 2), 5, 4, 3, (- 5), 8, 4, 2, 1, 0] [0, 3, 4, (- 2), (- 3), 4, 2, 0, 1, 2, (- 2), (- 1), 4, 0, 2, (- 2), 3, (- 3), (- 2), 1]) = 1"
  by (simp add: eval_simps sqrt_simps caller_def bruteForce_def exactDistance_def)

section \<open>Three points\<close>

text \<open>
  The claim C3 compares the distances of the adjacent pairs. The code compares the
  doubles it computes for them, and two different distances can round to one double:
  for \<open>(0,0)\<close>, \<open>(1,e)\<close>, \<open>(2,e)\<close> with \<open>e = 1 / 2 ^ 30\<close> the second pair is closer than the
  first, both computed distances are 1, and the result is the first pair.
\<close>

theorem closestPoints_three_rounded_tie:
  "closestPoints (Some 0) (Some 1) (caller [0, 1, 2] [0, 1 / 2 ^ 30, 1 / 2 ^ 30]) =
     Some (Inr ([Some (Point 0 0), Some (Point 1 (1 / 2 ^ 30))],
       \<lparr>heap = [Nums [0, 1, 2], Nums [0, 1 / 2 ^ 30, 1 / 2 ^ 30],
          Pts [Point 0 0, Point 1 (1 / 2 ^ 30), Point 2 (1 / 2 ^ 30)]],
        best1 = None, best2 = None, bestDist = 1, examined = [(1, 1), (1, 1)]\<rparr>))
   \<and> exactDistance (Point 1 (1 / 2 ^ 30)) (Point 2 (1 / 2 ^ 30)) <
       exactDistance (Point 0 0) (Point 1 (1 / 2 ^ 30))
   \<and> euclidean (Point 1 (1 / 2 ^ 30)) (Point 2 (1 / 2 ^ 30)) = 1
   \<and> euclidean (Point 0 0) (Point 1 (1 / 2 ^ 30)) = 1"
  by (simp add: eval_simps caller_def exactDistance_def rnd_tiny rnd_absorb)

text \<open>
  C3, amended. For an input of exactly three points, with \<open>ps\<close> the points sorted by
  \<open>x\<close>, \<open>closestPoints\<close> returns \<open>[ps ! 1, ps ! 2]\<close> when the distance it computes
  for them, in double precision, is less than the one it computes for \<open>ps ! 0\<close> and
  \<open>ps ! 1\<close>, and \<open>[ps ! 0, ps ! 1]\<close> otherwise. The two distances it computes are
  those of the adjacent pairs, in this order; the pair \<open>ps ! 0\<close>, \<open>ps ! 2\<close> is not
  compared, also where it is the closest, as for \<open>(0,0)\<close>, \<open>(1,10)\<close>, \<open>(2,0)\<close>.
\<close>

theorem closestPoints_three:
  assumes "nums_at st ax = Some [x0, x1, x2]" and "nums_at st ay = Some [y0, y1, y2]"
    and "ps = sort_key px [Point x0 y0, Point x1 y1, Point x2 y2]"
  shows "\<exists>st'. closestPoints (Some ax) (Some ay) st =
           Some (Inr (if euclidean (ps ! 1) (ps ! 2) < euclidean (ps ! 0) (ps ! 1)
                then [Some (ps ! 1), Some (ps ! 2)] else [Some (ps ! 0), Some (ps ! 1)], st')) \<and>
           map fst (rev (examined st')) = [euclidean (ps ! 0) (ps ! 1), euclidean (ps ! 1) (ps ! 2)]"
  using assms by (simp add: closestPoints_three_eq Let_def del: sort_key_simps)

theorem closestPoints_three_witness:
  "\<exists>st'. closestPoints (Some 0) (Some 1) (caller [0, 1, 2] [0, 10, 0]) =
           Some (Inr ([Some (Point 0 0), Some (Point 1 10)], st')) \<and>
         map fst (rev (examined st')) = [rnd (sqrt 101), rnd (sqrt 101)] \<and>
         euclidean (Point 0 0) (Point 2 0) = 2 \<and> 2 < rnd (sqrt 101)"
  using closestPoints_three [where st = "caller [0, 1, 2] [0, 10, 0]" and ax = 0 and ay = 1
      and ?x0.0 = 0 and ?x1.0 = 1 and ?x2.0 = 2 and ?y0.0 = 0 and ?y1.0 = 10 and ?y2.0 = 0
      and ps = "[Point 0 0, Point 1 10, Point 2 0]"]
  by (simp add: caller_def nums_at_def euclidean_def jsSqrt_def Infinity_def rnd_0 rnd_int
      num_rnd_sqrt_iff)

section \<open>The shape of the result\<close>

text \<open>
  C4. The claim: every input of equal, non-zero lengths gives an array of exactly two
  points. For the four points \<open>(-MAX_VALUE,0)\<close>, \<open>(0,0)\<close>, \<open>(MAX_VALUE,0)\<close>,
  \<open>(0,MAX_VALUE)\<close> the code returns an array of two \<^verbatim>\<open>null\<close>s. Every gap the
  scan meets is \<^verbatim>\<open>Number.MAX_VALUE\<close>, which is not below the initial \<open>d\<close>, so no
  pair is examined and \<^verbatim>\<open>_best1\<close>, \<^verbatim>\<open>_best2\<close> keep their reset value.
\<close>

theorem closestPoints_four_points_null:
  "closestPoints (Some 0) (Some 1)
     (caller [- MAX_VALUE, 0, MAX_VALUE, 0] [0, 0, 0, MAX_VALUE]) =
     Some (Inr ([None, None],
       \<lparr>heap = [Nums [- MAX_VALUE, 0, MAX_VALUE, 0], Nums [0, 0, 0, MAX_VALUE],
          Pts [Point (- MAX_VALUE) 0, Point 0 0, Point 0 MAX_VALUE, Point MAX_VALUE 0],
          Pts [Point (- MAX_VALUE) 0, Point 0 0, Point MAX_VALUE 0, Point 0 MAX_VALUE]],
        best1 = None, best2 = None, bestDist = MAX_VALUE, examined = []\<rparr>))"
  by (simp add: eval_simps MAX_simps caller_def)

section \<open>The running best distance\<close>

text \<open>
  The claim C6 says that \<^verbatim>\<open>_bestDist\<close> is at every point the least distance examined so
  far. In the branch for three points it is set to the first distance and stays there:
  for \<open>(0,0)\<close>, \<open>(3,4)\<close>, \<open>(4,4)\<close> it is 5 after the pair at distance 1 has been
  examined.
\<close>

theorem closestPoints_three_bestDist_stale:
  "closestPoints (Some 0) (Some 1) (caller [0, 3, 4] [0, 4, 4]) =
     Some (Inr ([Some (Point 3 4), Some (Point 4 4)],
       \<lparr>heap = [Nums [0, 3, 4], Nums [0, 4, 4], Pts [Point 0 0, Point 3 4, Point 4 4]],
        best1 = None, best2 = None, bestDist = 5, examined = [(1, 5), (5, 5)]\<rparr>))
   \<and> \<not> running_min MAX_VALUE (rev [(1, 5), (5, 5)])"
  by (simp add: eval_simps caller_def)

text \<open>
  C6, amended. For an input of four points or more, \<^verbatim>\<open>_bestDist\<close> never increases
  after its reset, and after each examined pair it is the least of
  \<^verbatim>\<open>Number.MAX_VALUE\<close> and the distances computed so far, in double precision (a
  distance that overflows is \<^verbatim>\<open>Infinity\<close> and leaves it as it is); so it is at the
  end.
\<close>

theorem closestPoints_running_min:
  assumes "nums_at st ax = Some xs" and "nums_at st ay = Some ys"
    and "length xs = length ys" and "4 \<le> length xs"
  shows "\<exists>r st'. closestPoints (Some ax) (Some ay) st = Some (Inr (r, st')) \<and>
           never_increases MAX_VALUE (rev (examined st')) \<and>
           running_min MAX_VALUE (rev (examined st')) \<and>
           bestDist st' = fold min (map fst (rev (examined st'))) MAX_VALUE"
proof -
  let ?p = "length (heap st)"
  from nums_at_length [OF assms(1)] have n: "length xs < 2 ^ 32" .
  with entry_returns [of xs st ys] assms(4) obtain d st' where
    c: "closestPoint ?p (?p + 1) 0 (int (length xs) - 1) (entry st xs ys) = Some (Inr (d, st'))"
    by auto
  from n have "\<bar>int (length xs) - 1\<bar> \<le> 2 ^ 52"
    by simp
  from closestPoint_log [OF c log_inv_entry _ this] have "log_inv st'"
    by simp
  with c assms show ?thesis
    by (simp add: closestPoints_general log_inv_def)
qed

theorem closestPoints_running_min_witness:
  "\<exists>r st'. closestPoints (Some 0) (Some 1) (caller [6, 5, 1, 2] [2, 4, 3, 6]) =
       Some (Inr (r, st')) \<and>
     never_increases MAX_VALUE (rev (examined st')) \<and>
     running_min MAX_VALUE (rev (examined st')) \<and>
     bestDist st' = fold min (map fst (rev (examined st'))) MAX_VALUE"
  using closestPoints_running_min [where st = "caller [6, 5, 1, 2] [2, 4, 3, 6]" and ax = 0
      and ay = 1 and xs = "[6, 5, 1, 2]" and ys = "[2, 4, 3, 6]"]
  by (simp add: caller_def nums_at_def)

section \<open>A single point\<close>

text \<open>
  C7. For an input of exactly one point \<open>(x, y)\<close>, both arrays of length 1,
  \<open>closestPoints\<close> returns an array of exactly two points, both equal to \<open>(x, y)\<close>, so
  the reported pair has distance 0, computed or exact; the state is left as it was.
\<close>

theorem closestPoints_singleton:
  assumes "nums_at st ax = Some [x]" and "nums_at st ay = Some [y]"
  shows "closestPoints (Some ax) (Some ay) st =
           Some (Inr ([Some (Point x y), Some (Point x y)], st))
         \<and> euclidean (Point x y) (Point x y) = 0
         \<and> exactDistance (Point x y) (Point x y) = 0"
  using assms
  by (simp add: closestPoints_def euclidean_def exactDistance_def jsSqrt_def Infinity_def rnd_0)

theorem closestPoints_singleton_witness:
  "closestPoints (Some 0) (Some 1)
     \<lparr>heap = [Nums [3], Nums [4]], best1 = None, best2 = None, bestDist = 0, examined = []\<rparr>
   = Some (Inr ([Some (Point 3 4), Some (Point 3 4)],
     \<lparr>heap = [Nums [3], Nums [4]], best1 = None, best2 = None, bestDist = 0, examined = []\<rparr>))"
  using closestPoints_singleton [of
     "\<lparr>heap = [Nums [3], Nums [4]], best1 = None, best2 = None, bestDist = 0, examined = []\<rparr>"
     0 3 1 4]
  by (simp add: nums_at_def)

section \<open>Two points\<close>

text \<open>
  C8. The claim: for an input of exactly two points \<open>closestPoints\<close> returns the two
  input points directly, \<open>(xs[0], ys[0])\<close> and \<open>(xs[1], ys[1])\<close>. The code fills the
  array \<^verbatim>\<open>points\<close> with them and does not return it; the call goes through the
  recursion. For \<open>(0,1)\<close>, \<open>(0,0)\<close> the second point comes first, and for \<open>(0,0)\<close>,
  \<open>(MAX_VALUE,0)\<close> the result is two \<^verbatim>\<open>null\<close>s.
\<close>

theorem closestPoints_two_points_not_direct:
  "closestPoints (Some 0) (Some 1) (caller [0, 0] [1, 0]) =
     Some (Inr ([Some (Point 0 0), Some (Point 0 1)],
       \<lparr>heap = [Nums [0, 0], Nums [1, 0],
          Pts [Point 0 1, Point 0 0],
          Pts [Point 0 0, Point 0 1]],
        best1 = Some (Point 0 0), best2 = Some (Point 0 1), bestDist = 1,
        examined = [(1, 1)]\<rparr>))
   \<and> closestPoints (Some 0) (Some 1) (caller [0, MAX_VALUE] [0, 0]) =
     Some (Inr ([None, None],
       \<lparr>heap = [Nums [0, MAX_VALUE], Nums [0, 0],
          Pts [Point 0 0, Point MAX_VALUE 0],
          Pts [Point 0 0, Point MAX_VALUE 0]],
        best1 = None, best2 = None, bestDist = MAX_VALUE, examined = []\<rparr>))"
  by (simp add: eval_simps MAX_simps caller_def)

section \<open>Termination\<close>

text \<open>
  The claim C9 says that \<open>closestPoint\<close> terminates for all integer bounds. The
  midpoint is computed in double precision: for \<open>from = 2 ^ 52 + 1\<close> and
  \<open>to = 2 ^ 52 + 2\<close> the sum \<open>from + 1/2\<close> is a tie and rounds to \<open>to\<close>, so
  \<open>mid = to\<close>, the first recursive call is the call itself, and the call does not
  return.
\<close>

theorem closestPoint_diverges:
  "mid_index (2 ^ 52 + 1) (2 ^ 52 + 2) = 2 ^ 52 + 2 \<and>
   closestPoint 0 1 (2 ^ 52 + 1) (2 ^ 52 + 2)
     \<lparr>heap = [Pts [Point 0 0, Point 1 1], Pts [Point 0 0, Point 1 1]],
      best1 = None, best2 = None, bestDist = MAX_VALUE, examined = []\<rparr> = None"
proof -
  have m: "mid_index (2 ^ 52 + 1) (2 ^ 52 + 2) = 2 ^ 52 + 2"
    using mid_index_tie by simp
  moreover have "closestPoint 0 1 (2 ^ 52 + 1) (2 ^ 52 + 2)
     \<lparr>heap = [Pts [Point 0 0, Point 1 1], Pts [Point 0 0, Point 1 1]],
      best1 = None, best2 = None, bestDist = MAX_VALUE, examined = []\<rparr> = None"
    by (rule closestPoint_same_range [OF _ m]) (simp_all add: pts_at_def)
  ultimately show ?thesis
    by simp
qed

text \<open>
  C9, amended. \<open>closestPoint\<close> terminates for all index bounds of magnitude at most
  \<open>2 ^ 52\<close> and every state: for \<open>from < to\<close> the midpoint lies in \<open>[from, to)\<close>,
  \<^verbatim>\<open>mid+1\<close> is exact, and both ranges \<open>[from, mid]\<close> and \<open>[mid + 1, to]\<close> are smaller
  than \<open>[from, to]\<close>. Every call of \<open>closestPoints\<close> on two arrays of numbers
  returns: its bounds are 0 and \<open>n - 1\<close>, below \<open>2 ^ 32\<close>.
\<close>

theorem closestPoint_terminates:
  "(\<bar>from\<bar> \<le> 2 ^ 52 \<and> \<bar>to\<bar> \<le> 2 ^ 52 \<longrightarrow>
      (\<exists>r. closestPoint pointsByX pointsByY from to st = Some r) \<and>
      (from < to \<longrightarrow>
         from \<le> mid_index from to \<and> mid_index from to < to \<and>
         plus1 (mid_index from to) = mid_index from to + 1 \<and>
         mid_index from to - from < to - from \<and>
         to - plus1 (mid_index from to) < to - from)) \<and>
   (nums_at st0 ax = Some xs \<and> nums_at st0 ay = Some ys \<longrightarrow>
      (\<exists>r st'. closestPoints (Some ax) (Some ay) st0 = Some (Inr (r, st'))))"
proof (intro conjI impI)
  assume "nums_at st0 ax = Some xs \<and> nums_at st0 ay = Some ys"
  then show "\<exists>r st'. closestPoints (Some ax) (Some ay) st0 = Some (Inr (r, st'))"
    by (simp add: closestPoints_returns)
next
  assume "\<bar>from\<bar> \<le> 2 ^ 52 \<and> \<bar>to\<bar> \<le> 2 ^ 52"
  then show "\<exists>r. closestPoint pointsByX pointsByY from to st = Some r"
    by (simp add: closestPoint_total)
next
  assume b: "\<bar>from\<bar> \<le> 2 ^ 52 \<and> \<bar>to\<bar> \<le> 2 ^ 52" and l: "from < to"
  then have m: "mid_index from to = from + (to - from) div 2"
    by (simp add: mid_index_exact)
  from range_step [OF l _ _ m] b have r: "\<bar>mid_index from to\<bar> \<le> 2 ^ 52"
    "from \<le> mid_index from to" "mid_index from to < to"
    by simp_all
  from r(1) have p: "plus1 (mid_index from to) = mid_index from to + 1"
    by (rule plus1_exact)
  from r show "from \<le> mid_index from to" and "mid_index from to < to"
    by simp_all
  from p show "plus1 (mid_index from to) = mid_index from to + 1" .
  from r l show "mid_index from to - from < to - from"
    by simp
  from r l p show "to - plus1 (mid_index from to) < to - from"
    by simp
qed

theorem closestPoint_terminates_witness:
  "(\<exists>r. closestPoint 2 3 0 3 (entry (caller [6, 5, 1, 2] [2, 4, 3, 6]) [6, 5, 1, 2] [2, 4, 3, 6])
       = Some r) \<and>
   mid_index 0 3 = 1 \<and> plus1 (mid_index 0 3) = 2 \<and>
   (\<exists>r st'. closestPoints (Some 0) (Some 1) (caller [6, 5, 1, 2] [2, 4, 3, 6]) =
      Some (Inr (r, st')))"
  using closestPoint_terminates [of 0 3 2 3
      "entry (caller [6, 5, 1, 2] [2, 4, 3, 6]) [6, 5, 1, 2] [2, 4, 3, 6]"
      "caller [6, 5, 1, 2] [2, 4, 3, 6]" 0 "[6, 5, 1, 2]" 1 "[2, 4, 3, 6]"]
  by (simp add: caller_def nums_at_def mid_index_exact)

section \<open>The input arrays\<close>

text \<open>
  C10. \<open>closestPoints\<close> never modifies its input arrays: every call on two arrays of
  numbers returns, both arrays hold afterwards what they held before, and so does every
  array that was in the store before the call (the arrays the call sorts are new).
\<close>

theorem closestPoints_inputs_unchanged:
  assumes "nums_at st ax = Some xs" and "nums_at st ay = Some ys"
  shows "\<exists>r st'. closestPoints (Some ax) (Some ay) st = Some (Inr (r, st')) \<and>
           nums_at st' ax = Some xs \<and> nums_at st' ay = Some ys \<and>
           take (length (heap st)) (heap st') = heap st"
proof -
  from closestPoints_returns [OF assms] obtain r st' where
    c: "closestPoints (Some ax) (Some ay) st = Some (Inr (r, st'))"
    by blast
  from closestPoints_prefix [OF c] have t: "take (length (heap st)) (heap st') = heap st" .
  then have "length (heap st) \<le> length (heap st')"
    by (metis length_take min.cobounded1)
  from nums_at_frame [OF this t] assms c t show ?thesis
    by simp
qed

theorem closestPoints_inputs_unchanged_witness:
  "\<exists>r st'. closestPoints (Some 0) (Some 1) (caller [6, 5, 1, 2] [2, 4, 3, 6]) =
       Some (Inr (r, st')) \<and>
     nums_at st' 0 = Some [6, 5, 1, 2] \<and> nums_at st' 1 = Some [2, 4, 3, 6] \<and>
     take (length (heap (caller [6, 5, 1, 2] [2, 4, 3, 6]))) (heap st') =
       heap (caller [6, 5, 1, 2] [2, 4, 3, 6])"
proof -
  have "nums_at (caller [6, 5, 1, 2] [2, 4, 3, 6]) 0 = Some [6, 5, 1, 2]"
    and "nums_at (caller [6, 5, 1, 2] [2, 4, 3, 6]) 1 = Some [2, 4, 3, 6]"
    by (simp_all add: caller_def nums_at_def)
  then show ?thesis
    by (rule closestPoints_inputs_unchanged)
qed

end
